theory Spec2Isabelle
  imports Main
begin

section \<open>Data model of \<open>bloomstack_core/hook_events/utils.py\<close>\<close>

text \<open>
  Dates are day ordinals: \<open>a < b\<close> is the order of \<open>datetime.date\<close> and
  \<open>date_diff a b = (a - b).days\<close> is integer subtraction.  An unset Date field is
  \<open>None\<close>.
\<close>

type_synonym date = int

definition date_diff :: "date \<Rightarrow> date \<Rightarrow> int" where
  "date_diff a b = a - b"

text \<open>
  A row of the \<open>licenses\<close> child table of a party (Customer, Supplier, Company).
  \<open>is_default\<close> is a Check field, an integer whose truth value is \<open>\<noteq> 0\<close>.
\<close>

record license_row =
  idx :: nat
  license :: string
  is_default :: int
  license_expiry_date :: "date option"

record party_doc =
  doc_name :: string
  licenses :: "license_row list"

text \<open>
  The two ways the hooks talk to the user: \<open>frappe.throw\<close> raises a validation error
  that blocks the save, \<open>frappe.msgprint\<close> queues a message and goes on.  The other
  errors are what the host raises when a document is missing.
\<close>

datatype throw_msg =
    DuplicateLicenses
  | NoDefaultLicense
  | MultipleDefaultLicenses string nat

datatype error =
    Throw throw_msg
  | DoesNotExistError string string
  | TypeError
  | DatabaseError string

datatype msg =
    StatusUnverifiable string
  | ExpiredOn string string date
  | RowExpired nat string int

section \<open>License validation\<close>

text \<open>
  \<open>validate_default_license\<close>, lines 35 to 52.  \<open>list(set(...))\<close> has as many
  elements as there are different license ids, which is the length of \<open>remdups\<close>.
  The document is mutated in place in the source; here the new document is returned.
\<close>

definition validate_default_license :: "party_doc \<Rightarrow> error + party_doc" where
  "validate_default_license doc =
     (let unique_licenses = remdups (map license (licenses doc)) in
      if length (licenses doc) \<noteq> length unique_licenses then Inl (Throw DuplicateLicenses)
      else if length (licenses doc) = 1 then
        Inr (doc\<lparr>licenses := (licenses doc)[0 := (licenses doc ! 0)\<lparr>is_default := 1\<rparr>]\<rparr>)
      else if length (licenses doc) > 1 then
        (let default_licenses = filter (\<lambda>l. is_default l \<noteq> 0) (licenses doc) in
         if default_licenses = [] then Inl (Throw NoDefaultLicense)
         else if length default_licenses > 1 then
           Inl (Throw (MultipleDefaultLicenses (doc_name doc) (length default_licenses)))
         else Inr doc)
      else Inr doc)"

text \<open>
  \<open>validate_expired_licenses\<close>, lines 55 to 62: the loop over the rows, with the
  messages printed so far as the accumulator.  An unset date is falsy.
\<close>

fun expired_rows_loop :: "date \<Rightarrow> license_row list \<Rightarrow> msg list \<Rightarrow> msg list" where
  "expired_rows_loop today [] out = out"
| "expired_rows_loop today (row # rows) out =
     (case license_expiry_date row of
        None \<Rightarrow> expired_rows_loop today rows out
      | Some d \<Rightarrow>
          if d < today then
            (let expired_since = date_diff today d in
             expired_rows_loop today rows (out @ [RowExpired (idx row) (license row) expired_since]))
          else expired_rows_loop today rows out)"

definition validate_expired_licenses :: "date \<Rightarrow> party_doc \<Rightarrow> error + (party_doc \<times> msg list)" where
  "validate_expired_licenses today doc = Inr (doc, expired_rows_loop today (licenses doc) [])"

text \<open>
  The host's document store, as far as the license functions read it:
  \<open>frappe.get_doc(party_type, party_name)\<close>, which raises when the document does not
  exist, and \<open>frappe.db.get_value("Compliance Info", name, [expiry, number])\<close>, which
  returns \<open>None\<close> when it does not (unpacking \<open>None\<close> is a TypeError).
\<close>

type_synonym party_store = "string \<Rightarrow> string \<Rightarrow> party_doc option"
type_synonym compliance_store = "string \<Rightarrow> (date option \<times> string) option"

text \<open>
  \<open>get_default_license\<close>, lines 65 to 79.  The result is Python's \<open>None\<close>
  (\<open>None\<close>), the empty string (\<open>Some []\<close>) or a license id.
\<close>

definition get_default_license :: "party_store \<Rightarrow> string \<Rightarrow> string \<Rightarrow> error + string option" where
  "get_default_license get_doc party_type party_name =
     (case get_doc party_type party_name of
        None \<Rightarrow> Inl (DoesNotExistError party_type party_name)
      | Some doc \<Rightarrow>
          if licenses doc = [] then Inr None
          else
            (case find (\<lambda>l. is_default l \<noteq> 0) (licenses doc) of
               None \<Rightarrow> Inr (Some [])
             | Some row \<Rightarrow> Inr (Some (license row))))"

text \<open>Python's truth value of the result of \<open>get_default_license\<close>.\<close>

fun truthy :: "string option \<Rightarrow> bool" where
  "truthy None = False"
| "truthy (Some s) = (s \<noteq> [])"

text \<open>
  \<open>validate_entity_license\<close>, lines 17 to 32.  The result is the returned value and
  the messages printed.
\<close>

definition validate_entity_license ::
  "party_store \<Rightarrow> compliance_store \<Rightarrow> date \<Rightarrow> string \<Rightarrow> string \<Rightarrow> error + (string option \<times> msg list)" where
  "validate_entity_license get_doc get_value today party_type party_name =
     (case get_default_license get_doc party_type party_name of
        Inl e \<Rightarrow> Inl e
      | Inr license_record \<Rightarrow>
          if \<not> truthy license_record then Inr (None, [])
          else
            (case get_value (the license_record) of
               None \<Rightarrow> Inl TypeError
             | Some (expiry_date, license_number) \<Rightarrow>
                 (case expiry_date of
                    None \<Rightarrow> Inr (license_record, [StatusUnverifiable license_number])
                  | Some d \<Rightarrow>
                      if d < today then
                        Inr (license_record, [ExpiredOn party_name license_number d])
                      else Inr (license_record, []))))"

section \<open>Properties of the license validation\<close>

lemma length_remdups_neq_iff: "length xs \<noteq> length (remdups xs) \<longleftrightarrow> \<not> distinct xs"
  by (metis distinct_remdups length_remdups_eq remdups_id_iff_distinct)

text \<open>
  Claim C4.  \<open>validate_default_license\<close> rejects a table in which a license id
  repeats, whatever the default flags are; with exactly one row it returns the document
  with that row's default flag set to 1; with two or more rows of different ids it
  rejects when no row is marked default, rejects naming the number of default rows when
  more than one is, and returns the document unchanged when exactly one is.
\<close>

theorem validate_default_license_cases:
  "(\<not> distinct (map license (licenses doc)) \<longrightarrow>
      validate_default_license doc = Inl (Throw DuplicateLicenses)) \<and>
   (licenses doc = [r] \<longrightarrow>
      validate_default_license doc = Inr (doc\<lparr>licenses := [r\<lparr>is_default := 1\<rparr>]\<rparr>)) \<and>
   (2 \<le> length (licenses doc) \<and> distinct (map license (licenses doc)) \<longrightarrow>
      (length (filter (\<lambda>l. is_default l \<noteq> 0) (licenses doc)) = 0 \<longrightarrow>
         validate_default_license doc = Inl (Throw NoDefaultLicense)) \<and>
      (1 < length (filter (\<lambda>l. is_default l \<noteq> 0) (licenses doc)) \<longrightarrow>
         validate_default_license doc =
           Inl (Throw (MultipleDefaultLicenses (doc_name doc)
                  (length (filter (\<lambda>l. is_default l \<noteq> 0) (licenses doc)))))) \<and>
      (length (filter (\<lambda>l. is_default l \<noteq> 0) (licenses doc)) = 1 \<longrightarrow>
         validate_default_license doc = Inr doc))"
proof (intro conjI impI)
  assume "\<not> distinct (map license (licenses doc))"
  then show "validate_default_license doc = Inl (Throw DuplicateLicenses)"
    by (simp add: validate_default_license_def length_remdups_neq_iff [symmetric] Let_def)
next
  assume "licenses doc = [r]"
  then show "validate_default_license doc = Inr (doc\<lparr>licenses := [r\<lparr>is_default := 1\<rparr>]\<rparr>)"
    by (simp add: validate_default_license_def)
next
  assume h: "2 \<le> length (licenses doc) \<and> distinct (map license (licenses doc))"
    and n: "length (filter (\<lambda>l. is_default l \<noteq> 0) (licenses doc)) = 0"
  from h have "length (map license (licenses doc)) = length (remdups (map license (licenses doc)))"
    by (simp add: distinct_remdups_id)
  with h n show "validate_default_license doc = Inl (Throw NoDefaultLicense)"
    by (simp add: validate_default_license_def Let_def)
next
  assume h: "2 \<le> length (licenses doc) \<and> distinct (map license (licenses doc))"
    and n: "1 < length (filter (\<lambda>l. is_default l \<noteq> 0) (licenses doc))"
  from h have "length (map license (licenses doc)) = length (remdups (map license (licenses doc)))"
    by (simp add: distinct_remdups_id)
  moreover from n have "filter (\<lambda>l. is_default l \<noteq> 0) (licenses doc) \<noteq> []"
    by auto
  ultimately show "validate_default_license doc =
      Inl (Throw (MultipleDefaultLicenses (doc_name doc)
             (length (filter (\<lambda>l. is_default l \<noteq> 0) (licenses doc)))))"
    using h n by (simp add: validate_default_license_def Let_def)
next
  assume h: "2 \<le> length (licenses doc) \<and> distinct (map license (licenses doc))"
    and n: "length (filter (\<lambda>l. is_default l \<noteq> 0) (licenses doc)) = 1"
  from h have "length (map license (licenses doc)) = length (remdups (map license (licenses doc)))"
    by (simp add: distinct_remdups_id)
  moreover from n have "filter (\<lambda>l. is_default l \<noteq> 0) (licenses doc) \<noteq> []"
    by auto
  ultimately show "validate_default_license doc = Inr doc"
    using h n by (simp add: validate_default_license_def Let_def)
qed

theorem validate_default_license_cases_witness:
  "validate_default_license
     \<lparr>doc_name = ''ACME'', licenses =
        [\<lparr>idx = 1, license = ''L1'', is_default = 1, license_expiry_date = None\<rparr>,
         \<lparr>idx = 2, license = ''L1'', is_default = 0, license_expiry_date = None\<rparr>]\<rparr>
     = Inl (Throw DuplicateLicenses) \<and>
   validate_default_license
     \<lparr>doc_name = ''ACME'', licenses =
        [\<lparr>idx = 1, license = ''L1'', is_default = 0, license_expiry_date = None\<rparr>]\<rparr>
     = Inr \<lparr>doc_name = ''ACME'', licenses =
        [\<lparr>idx = 1, license = ''L1'', is_default = 1, license_expiry_date = None\<rparr>]\<rparr> \<and>
   validate_default_license
     \<lparr>doc_name = ''ACME'', licenses =
        [\<lparr>idx = 1, license = ''L1'', is_default = 0, license_expiry_date = None\<rparr>,
         \<lparr>idx = 2, license = ''L2'', is_default = 0, license_expiry_date = None\<rparr>]\<rparr>
     = Inl (Throw NoDefaultLicense) \<and>
   validate_default_license
     \<lparr>doc_name = ''ACME'', licenses =
        [\<lparr>idx = 1, license = ''L1'', is_default = 1, license_expiry_date = None\<rparr>,
         \<lparr>idx = 2, license = ''L2'', is_default = 1, license_expiry_date = None\<rparr>]\<rparr>
     = Inl (Throw (MultipleDefaultLicenses ''ACME'' 2)) \<and>
   validate_default_license
     \<lparr>doc_name = ''ACME'', licenses =
        [\<lparr>idx = 1, license = ''L1'', is_default = 0, license_expiry_date = None\<rparr>,
         \<lparr>idx = 2, license = ''L2'', is_default = 1, license_expiry_date = None\<rparr>]\<rparr>
     = Inr \<lparr>doc_name = ''ACME'', licenses =
        [\<lparr>idx = 1, license = ''L1'', is_default = 0, license_expiry_date = None\<rparr>,
         \<lparr>idx = 2, license = ''L2'', is_default = 1, license_expiry_date = None\<rparr>]\<rparr>"
proof (intro conjI)
  show "validate_default_license
     \<lparr>doc_name = ''ACME'', licenses =
        [\<lparr>idx = 1, license = ''L1'', is_default = 1, license_expiry_date = None\<rparr>,
         \<lparr>idx = 2, license = ''L1'', is_default = 0, license_expiry_date = None\<rparr>]\<rparr>
     = Inl (Throw DuplicateLicenses)"
    using validate_default_license_cases
      [of "\<lparr>doc_name = ''ACME'', licenses =
        [\<lparr>idx = 1, license = ''L1'', is_default = 1, license_expiry_date = None\<rparr>,
         \<lparr>idx = 2, license = ''L1'', is_default = 0, license_expiry_date = None\<rparr>]\<rparr>"]
    by simp
next
  show "validate_default_license
     \<lparr>doc_name = ''ACME'', licenses =
        [\<lparr>idx = 1, license = ''L1'', is_default = 0, license_expiry_date = None\<rparr>]\<rparr>
     = Inr \<lparr>doc_name = ''ACME'', licenses =
        [\<lparr>idx = 1, license = ''L1'', is_default = 1, license_expiry_date = None\<rparr>]\<rparr>"
    using validate_default_license_cases
      [of "\<lparr>doc_name = ''ACME'', licenses =
        [\<lparr>idx = 1, license = ''L1'', is_default = 0, license_expiry_date = None\<rparr>]\<rparr>"
          "\<lparr>idx = 1, license = ''L1'', is_default = 0, license_expiry_date = None\<rparr>"]
    by simp
next
  show "validate_default_license
     \<lparr>doc_name = ''ACME'', licenses =
        [\<lparr>idx = 1, license = ''L1'', is_default = 0, license_expiry_date = None\<rparr>,
         \<lparr>idx = 2, license = ''L2'', is_default = 0, license_expiry_date = None\<rparr>]\<rparr>
     = Inl (Throw NoDefaultLicense)"
    using validate_default_license_cases
      [of "\<lparr>doc_name = ''ACME'', licenses =
        [\<lparr>idx = 1, license = ''L1'', is_default = 0, license_expiry_date = None\<rparr>,
         \<lparr>idx = 2, license = ''L2'', is_default = 0, license_expiry_date = None\<rparr>]\<rparr>"]
    by simp
next
  show "validate_default_license
     \<lparr>doc_name = ''ACME'', licenses =
        [\<lparr>idx = 1, license = ''L1'', is_default = 1, license_expiry_date = None\<rparr>,
         \<lparr>idx = 2, license = ''L2'', is_default = 1, license_expiry_date = None\<rparr>]\<rparr>
     = Inl (Throw (MultipleDefaultLicenses ''ACME'' 2))"
    using validate_default_license_cases
      [of "\<lparr>doc_name = ''ACME'', licenses =
        [\<lparr>idx = 1, license = ''L1'', is_default = 1, license_expiry_date = None\<rparr>,
         \<lparr>idx = 2, license = ''L2'', is_default = 1, license_expiry_date = None\<rparr>]\<rparr>"]
    by simp
next
  show "validate_default_license
     \<lparr>doc_name = ''ACME'', licenses =
        [\<lparr>idx = 1, license = ''L1'', is_default = 0, license_expiry_date = None\<rparr>,
         \<lparr>idx = 2, license = ''L2'', is_default = 1, license_expiry_date = None\<rparr>]\<rparr>
     = Inr \<lparr>doc_name = ''ACME'', licenses =
        [\<lparr>idx = 1, license = ''L1'', is_default = 0, license_expiry_date = None\<rparr>,
         \<lparr>idx = 2, license = ''L2'', is_default = 1, license_expiry_date = None\<rparr>]\<rparr>"
    using validate_default_license_cases
      [of "\<lparr>doc_name = ''ACME'', licenses =
        [\<lparr>idx = 1, license = ''L1'', is_default = 0, license_expiry_date = None\<rparr>,
         \<lparr>idx = 2, license = ''L2'', is_default = 1, license_expiry_date = None\<rparr>]\<rparr>"]
    by simp
qed

text \<open>
  What the specification says \<open>validate_expired_licenses\<close> prints: one warning for
  each row whose expiry date is set and before today, with the row's index, its license
  id and the number of days from the expiry date to today.
\<close>

definition is_expired :: "date \<Rightarrow> license_row \<Rightarrow> bool" where
  "is_expired today row =
     (case license_expiry_date row of None \<Rightarrow> False | Some d \<Rightarrow> d < today)"

definition expiry_warning :: "date \<Rightarrow> license_row \<Rightarrow> msg" where
  "expiry_warning today row =
     RowExpired (idx row) (license row) (today - the (license_expiry_date row))"

lemma expired_rows_loop_eq:
  "expired_rows_loop today rows out =
     out @ map (expiry_warning today) (filter (is_expired today) rows)"
proof (induction rows arbitrary: out)
  case Nil
  then show ?case by simp
next
  case (Cons row rows)
  show ?case
  proof (cases "license_expiry_date row")
    case None
    then show ?thesis
      by (simp add: Cons.IH is_expired_def)
  next
    case (Some d)
    then show ?thesis
      by (simp add: Cons.IH is_expired_def expiry_warning_def date_diff_def)
  qed
qed

text \<open>
  Claim C8.  \<open>validate_expired_licenses\<close> returns normally with the document as it
  was, and prints, in the order of the rows, exactly one warning for each row whose
  expiry date is set and strictly before today: the row's index, its license id and
  today minus the expiry date.  Rows with no expiry date, or one that is today or later,
  print nothing.  Every day count printed is at least 0 (in fact at least 1).
\<close>

theorem validate_expired_licenses_warnings:
  "validate_expired_licenses today doc =
     Inr (doc, map (expiry_warning today) (filter (is_expired today) (licenses doc))) \<and>
   list_all (\<lambda>row. 0 \<le> today - the (license_expiry_date row) \<and>
                   1 \<le> today - the (license_expiry_date row))
     (filter (is_expired today) (licenses doc))"
proof
  show "validate_expired_licenses today doc =
     Inr (doc, map (expiry_warning today) (filter (is_expired today) (licenses doc)))"
    by (simp add: validate_expired_licenses_def expired_rows_loop_eq)
next
  have "0 \<le> today - the (license_expiry_date row) \<and> 1 \<le> today - the (license_expiry_date row)"
    if "is_expired today row" for row
    using that by (cases "license_expiry_date row") (simp_all add: is_expired_def)
  then show "list_all (\<lambda>row. 0 \<le> today - the (license_expiry_date row) \<and>
                   1 \<le> today - the (license_expiry_date row))
     (filter (is_expired today) (licenses doc))"
    by (simp add: list_all_iff)
qed

theorem validate_expired_licenses_warnings_witness:
  "validate_expired_licenses 100
     \<lparr>doc_name = ''ACME'', licenses =
        [\<lparr>idx = 1, license = ''L1'', is_default = 1, license_expiry_date = Some 90\<rparr>,
         \<lparr>idx = 2, license = ''L2'', is_default = 0, license_expiry_date = None\<rparr>,
         \<lparr>idx = 3, license = ''L3'', is_default = 0, license_expiry_date = Some 100\<rparr>,
         \<lparr>idx = 4, license = ''L4'', is_default = 0, license_expiry_date = Some 99\<rparr>]\<rparr>
   = Inr (\<lparr>doc_name = ''ACME'', licenses =
        [\<lparr>idx = 1, license = ''L1'', is_default = 1, license_expiry_date = Some 90\<rparr>,
         \<lparr>idx = 2, license = ''L2'', is_default = 0, license_expiry_date = None\<rparr>,
         \<lparr>idx = 3, license = ''L3'', is_default = 0, license_expiry_date = Some 100\<rparr>,
         \<lparr>idx = 4, license = ''L4'', is_default = 0, license_expiry_date = Some 99\<rparr>]\<rparr>,
         [RowExpired 1 ''L1'' 10, RowExpired 4 ''L4'' 1])"
  using validate_expired_licenses_warnings
    [of 100 "\<lparr>doc_name = ''ACME'', licenses =
        [\<lparr>idx = 1, license = ''L1'', is_default = 1, license_expiry_date = Some 90\<rparr>,
         \<lparr>idx = 2, license = ''L2'', is_default = 0, license_expiry_date = None\<rparr>,
         \<lparr>idx = 3, license = ''L3'', is_default = 0, license_expiry_date = Some 100\<rparr>,
         \<lparr>idx = 4, license = ''L4'', is_default = 0, license_expiry_date = Some 99\<rparr>]\<rparr>"]
  by (simp add: is_expired_def expiry_warning_def)

lemma find_first_index:
  assumes "i < length xs" and "P (xs ! i)" and "\<forall>j<i. \<not> P (xs ! j)"
  shows "find P xs = Some (xs ! i)"
  using assms by (auto simp: find_Some_iff)

lemma find_no_match:
  assumes "\<forall>x\<in>set xs. \<not> P x"
  shows "find P xs = None"
  using assms by (simp add: find_None_iff)

text \<open>
  Claim C9.  For a party that exists: with no license rows \<open>get_default_license\<close>
  returns \<open>None\<close>; with rows, it returns the license id of the first row whose
  default flag is set, and the empty string when no row has the flag set.
\<close>

theorem get_default_license_result:
  assumes "get_doc party_type party_name = Some doc"
  shows "(licenses doc = [] \<longrightarrow>
            get_default_license get_doc party_type party_name = Inr None) \<and>
         (\<forall>i. i < length (licenses doc) \<and> is_default (licenses doc ! i) \<noteq> 0 \<and>
               (\<forall>j<i. is_default (licenses doc ! j) = 0) \<longrightarrow>
            get_default_license get_doc party_type party_name =
              Inr (Some (license (licenses doc ! i)))) \<and>
         (licenses doc \<noteq> [] \<and> (\<forall>row\<in>set (licenses doc). is_default row = 0) \<longrightarrow>
            get_default_license get_doc party_type party_name = Inr (Some []))"
proof (intro conjI allI impI)
  assume "licenses doc = []"
  with assms show "get_default_license get_doc party_type party_name = Inr None"
    by (simp add: get_default_license_def)
next
  fix i
  assume h: "i < length (licenses doc) \<and> is_default (licenses doc ! i) \<noteq> 0 \<and>
               (\<forall>j<i. is_default (licenses doc ! j) = 0)"
  then have "find (\<lambda>l. is_default l \<noteq> 0) (licenses doc) = Some (licenses doc ! i)"
    by (intro find_first_index) simp_all
  moreover from h have "licenses doc \<noteq> []"
    by auto
  ultimately show "get_default_license get_doc party_type party_name =
      Inr (Some (license (licenses doc ! i)))"
    using assms by (simp add: get_default_license_def)
next
  assume h: "licenses doc \<noteq> [] \<and> (\<forall>row\<in>set (licenses doc). is_default row = 0)"
  then have "find (\<lambda>l. is_default l \<noteq> 0) (licenses doc) = None"
    by (intro find_no_match) simp
  with h assms show "get_default_license get_doc party_type party_name = Inr (Some [])"
    by (simp add: get_default_license_def)
qed

text \<open>A store with three customers, for the concrete instances below.\<close>

definition example_parties :: party_store where
  "example_parties party_type party_name =
     (if party_type = ''Customer'' \<and> party_name = ''Empty'' then
        Some \<lparr>doc_name = ''Empty'', licenses = []\<rparr>
      else if party_type = ''Customer'' \<and> party_name = ''ACME'' then
        Some \<lparr>doc_name = ''ACME'', licenses =
          [\<lparr>idx = 1, license = ''L1'', is_default = 0, license_expiry_date = None\<rparr>,
           \<lparr>idx = 2, license = ''L2'', is_default = 1, license_expiry_date = Some 90\<rparr>,
           \<lparr>idx = 3, license = ''L3'', is_default = 1, license_expiry_date = None\<rparr>]\<rparr>
      else if party_type = ''Customer'' \<and> party_name = ''Plain'' then
        Some \<lparr>doc_name = ''Plain'', licenses =
          [\<lparr>idx = 1, license = ''L4'', is_default = 0, license_expiry_date = None\<rparr>]\<rparr>
      else if party_type = ''Supplier'' \<and> party_name = ''Beta'' then
        Some \<lparr>doc_name = ''Beta'', licenses =
          [\<lparr>idx = 1, license = ''L3'', is_default = 1, license_expiry_date = None\<rparr>]\<rparr>
      else None)"

theorem get_default_license_result_witness:
  "get_default_license example_parties ''Customer'' ''Empty'' = Inr None \<and>
   get_default_license example_parties ''Customer'' ''ACME'' = Inr (Some ''L2'') \<and>
   get_default_license example_parties ''Customer'' ''Plain'' = Inr (Some [])"
proof (intro conjI)
  have "example_parties ''Customer'' ''Empty'' = Some \<lparr>doc_name = ''Empty'', licenses = []\<rparr>"
    by (simp add: example_parties_def)
  from get_default_license_result [of example_parties "''Customer''" "''Empty''", OF this]
  show "get_default_license example_parties ''Customer'' ''Empty'' = Inr None"
    by simp
next
  have "example_parties ''Customer'' ''ACME'' =
      Some \<lparr>doc_name = ''ACME'', licenses =
          [\<lparr>idx = 1, license = ''L1'', is_default = 0, license_expiry_date = None\<rparr>,
           \<lparr>idx = 2, license = ''L2'', is_default = 1, license_expiry_date = Some 90\<rparr>,
           \<lparr>idx = 3, license = ''L3'', is_default = 1, license_expiry_date = None\<rparr>]\<rparr>"
    by (simp add: example_parties_def)
  from get_default_license_result [of example_parties "''Customer''" "''ACME''", OF this,
      THEN conjunct2, THEN conjunct1, rule_format, of 1]
  show "get_default_license example_parties ''Customer'' ''ACME'' = Inr (Some ''L2'')"
    by simp
next
  have "example_parties ''Customer'' ''Plain'' =
      Some \<lparr>doc_name = ''Plain'', licenses =
          [\<lparr>idx = 1, license = ''L4'', is_default = 0, license_expiry_date = None\<rparr>]\<rparr>"
    by (simp add: example_parties_def)
  from get_default_license_result [of example_parties "''Customer''" "''Plain''", OF this]
  show "get_default_license example_parties ''Customer'' ''Plain'' = Inr (Some [])"
    by simp
qed

text \<open>The Compliance Info records of the licenses above: expiry date and number.\<close>

definition example_compliance :: compliance_store where
  "example_compliance n =
     (if n = ''L2'' then Some (Some 90, ''N-2'')
      else if n = ''L3'' then Some (None, ''N-3'')
      else None)"

text \<open>
  A customer whose default license has no Compliance Info record in
  \<open>example_compliance\<close>.
\<close>

definition orphan_parties :: party_store where
  "orphan_parties party_type party_name =
     (if party_type = ''Customer'' \<and> party_name = ''Gamma'' then
        Some \<lparr>doc_name = ''Gamma'', licenses =
          [\<lparr>idx = 1, license = ''L9'', is_default = 1, license_expiry_date = None\<rparr>]\<rparr>
      else None)"

text \<open>
  Claim C7, as stated, fails: a default license is found for customer \<open>Gamma\<close>,
  but the call does not return its id; unpacking the missing Compliance Info record
  raises a TypeError.  For a party that does not exist the host's \<open>get_doc\<close>
  raises.
\<close>

theorem validate_entity_license_counterexample:
  "validate_entity_license orphan_parties example_compliance 100 ''Customer'' ''Gamma'' =
     Inl TypeError \<and>
   validate_entity_license orphan_parties example_compliance 100 ''Customer'' ''Nobody'' =
     Inl (DoesNotExistError ''Customer'' ''Nobody'')"
  by (simp add: validate_entity_license_def get_default_license_def orphan_parties_def
      example_compliance_def)

text \<open>
  Claim C7, amended.  \<open>validate_entity_license\<close> never raises a validation error
  (\<open>frappe.throw\<close>), and every case of it is one of these.  When the party does not
  exist, the host's \<open>get_doc\<close> raises.  For a party that exists: when no row is
  flagged default (or there is no row), or the first default row has an empty license
  id, it returns \<open>None\<close> and prints nothing; when that license id has no Compliance
  Info record, unpacking the missing record raises a TypeError; when the record is
  found, it returns the license id, and prints one warning with the license number when
  the expiry date is missing, one warning with the party name, the license number and
  the expiry date when the expiry date is strictly before today, and nothing when the
  expiry date is today or later.
\<close>

theorem validate_entity_license_cases:
  "(\<forall>m. validate_entity_license get_doc get_value today party_type party_name \<noteq> Inl (Throw m)) \<and>
   (get_doc party_type party_name = None \<longrightarrow>
      validate_entity_license get_doc get_value today party_type party_name =
        Inl (DoesNotExistError party_type party_name)) \<and>
   (get_doc party_type party_name = Some doc \<and>
    find (\<lambda>l. is_default l \<noteq> 0) (licenses doc) = None \<longrightarrow>
      validate_entity_license get_doc get_value today party_type party_name = Inr (None, [])) \<and>
   (get_doc party_type party_name = Some doc \<and>
    find (\<lambda>l. is_default l \<noteq> 0) (licenses doc) = Some row \<and> license row = [] \<longrightarrow>
      validate_entity_license get_doc get_value today party_type party_name = Inr (None, [])) \<and>
   (get_doc party_type party_name = Some doc \<and>
    find (\<lambda>l. is_default l \<noteq> 0) (licenses doc) = Some row \<and> license row \<noteq> [] \<and>
    get_value (license row) = None \<longrightarrow>
      validate_entity_license get_doc get_value today party_type party_name = Inl TypeError) \<and>
   (get_doc party_type party_name = Some doc \<and>
    find (\<lambda>l. is_default l \<noteq> 0) (licenses doc) = Some row \<and> license row \<noteq> [] \<and>
    get_value (license row) = Some (expiry, license_number) \<longrightarrow>
      validate_entity_license get_doc get_value today party_type party_name =
        Inr (Some (license row),
             (case expiry of
                None \<Rightarrow> [StatusUnverifiable license_number]
              | Some d \<Rightarrow> if d < today then [ExpiredOn party_name license_number d] else [])))"
proof (intro conjI allI impI)
  fix m
  show "validate_entity_license get_doc get_value today party_type party_name \<noteq> Inl (Throw m)"
    by (auto simp: validate_entity_license_def get_default_license_def
        split: option.splits sum.splits if_splits)
next
  assume "get_doc party_type party_name = None"
  then show "validate_entity_license get_doc get_value today party_type party_name =
        Inl (DoesNotExistError party_type party_name)"
    by (simp add: validate_entity_license_def get_default_license_def)
next
  assume "get_doc party_type party_name = Some doc \<and>
    find (\<lambda>l. is_default l \<noteq> 0) (licenses doc) = None"
  then show "validate_entity_license get_doc get_value today party_type party_name = Inr (None, [])"
    by (simp add: validate_entity_license_def get_default_license_def)
next
  assume "get_doc party_type party_name = Some doc \<and>
    find (\<lambda>l. is_default l \<noteq> 0) (licenses doc) = Some row \<and> license row = []"
  then show "validate_entity_license get_doc get_value today party_type party_name = Inr (None, [])"
    by (simp add: validate_entity_license_def get_default_license_def)
next
  assume h: "get_doc party_type party_name = Some doc \<and>
    find (\<lambda>l. is_default l \<noteq> 0) (licenses doc) = Some row \<and> license row \<noteq> [] \<and>
    get_value (license row) = None"
  then have "licenses doc \<noteq> []"
    by auto
  with h show "validate_entity_license get_doc get_value today party_type party_name = Inl TypeError"
    by (simp add: validate_entity_license_def get_default_license_def)
next
  assume h: "get_doc party_type party_name = Some doc \<and>
    find (\<lambda>l. is_default l \<noteq> 0) (licenses doc) = Some row \<and> license row \<noteq> [] \<and>
    get_value (license row) = Some (expiry, license_number)"
  then have "licenses doc \<noteq> []"
    by auto
  with h show "validate_entity_license get_doc get_value today party_type party_name =
        Inr (Some (license row),
             (case expiry of
                None \<Rightarrow> [StatusUnverifiable license_number]
              | Some d \<Rightarrow> if d < today then [ExpiredOn party_name license_number d] else []))"
    by (simp add: validate_entity_license_def get_default_license_def split: option.splits)
qed

theorem validate_entity_license_cases_witness:
  "validate_entity_license example_parties example_compliance 100 ''Customer'' ''Nobody'' =
     Inl (DoesNotExistError ''Customer'' ''Nobody'') \<and>
   validate_entity_license example_parties example_compliance 100 ''Customer'' ''Plain'' =
     Inr (None, []) \<and>
   validate_entity_license (\<lambda>t n. Some \<lparr>doc_name = ''Delta'', licenses =
       [\<lparr>idx = 1, license = [], is_default = 1, license_expiry_date = None\<rparr>]\<rparr>)
     example_compliance 100 ''Customer'' ''Delta'' = Inr (None, []) \<and>
   validate_entity_license orphan_parties example_compliance 100 ''Customer'' ''Gamma'' =
     Inl TypeError \<and>
   validate_entity_license example_parties example_compliance 100 ''Customer'' ''ACME'' =
     Inr (Some ''L2'', [ExpiredOn ''ACME'' ''N-2'' 90]) \<and>
   validate_entity_license example_parties example_compliance 90 ''Customer'' ''ACME'' =
     Inr (Some ''L2'', []) \<and>
   validate_entity_license example_parties example_compliance 100 ''Supplier'' ''Beta'' =
     Inr (Some ''L3'', [StatusUnverifiable ''N-3''])"
proof (intro conjI)
  show "validate_entity_license example_parties example_compliance 100 ''Customer'' ''Nobody'' =
     Inl (DoesNotExistError ''Customer'' ''Nobody'')"
    using validate_entity_license_cases
      [of example_parties example_compliance 100 "''Customer''" "''Nobody''"]
    by (simp add: example_parties_def)
next
  show "validate_entity_license example_parties example_compliance 100 ''Customer'' ''Plain'' =
     Inr (None, [])"
    using validate_entity_license_cases
      [of example_parties example_compliance 100 "''Customer''" "''Plain''"
          "\<lparr>doc_name = ''Plain'', licenses =
            [\<lparr>idx = 1, license = ''L4'', is_default = 0, license_expiry_date = None\<rparr>]\<rparr>"]
    by (simp add: example_parties_def)
next
  show "validate_entity_license (\<lambda>t n. Some \<lparr>doc_name = ''Delta'', licenses =
       [\<lparr>idx = 1, license = [], is_default = 1, license_expiry_date = None\<rparr>]\<rparr>)
     example_compliance 100 ''Customer'' ''Delta'' = Inr (None, [])"
    using validate_entity_license_cases
      [of "\<lambda>t n. Some \<lparr>doc_name = ''Delta'', licenses =
            [\<lparr>idx = 1, license = [], is_default = 1, license_expiry_date = None\<rparr>]\<rparr>"
          example_compliance 100 "''Customer''" "''Delta''"
          "\<lparr>doc_name = ''Delta'', licenses =
            [\<lparr>idx = 1, license = [], is_default = 1, license_expiry_date = None\<rparr>]\<rparr>"
          "\<lparr>idx = 1, license = [], is_default = 1, license_expiry_date = None\<rparr>"]
    by simp
next
  show "validate_entity_license orphan_parties example_compliance 100 ''Customer'' ''Gamma'' =
     Inl TypeError"
    using validate_entity_license_cases
      [of orphan_parties example_compliance 100 "''Customer''" "''Gamma''"
          "\<lparr>doc_name = ''Gamma'', licenses =
            [\<lparr>idx = 1, license = ''L9'', is_default = 1, license_expiry_date = None\<rparr>]\<rparr>"
          "\<lparr>idx = 1, license = ''L9'', is_default = 1, license_expiry_date = None\<rparr>"]
    by (simp add: orphan_parties_def example_compliance_def)
next
  show "validate_entity_license example_parties example_compliance 100 ''Customer'' ''ACME'' =
     Inr (Some ''L2'', [ExpiredOn ''ACME'' ''N-2'' 90])"
    using validate_entity_license_cases
      [of example_parties example_compliance 100 "''Customer''" "''ACME''"
          "\<lparr>doc_name = ''ACME'', licenses =
            [\<lparr>idx = 1, license = ''L1'', is_default = 0, license_expiry_date = None\<rparr>,
             \<lparr>idx = 2, license = ''L2'', is_default = 1, license_expiry_date = Some 90\<rparr>,
             \<lparr>idx = 3, license = ''L3'', is_default = 1, license_expiry_date = None\<rparr>]\<rparr>"
          "\<lparr>idx = 2, license = ''L2'', is_default = 1, license_expiry_date = Some 90\<rparr>"
          "Some 90" "''N-2''"]
    by (simp add: example_parties_def example_compliance_def)
next
  show "validate_entity_license example_parties example_compliance 90 ''Customer'' ''ACME'' =
     Inr (Some ''L2'', [])"
    using validate_entity_license_cases
      [of example_parties example_compliance 90 "''Customer''" "''ACME''"
          "\<lparr>doc_name = ''ACME'', licenses =
            [\<lparr>idx = 1, license = ''L1'', is_default = 0, license_expiry_date = None\<rparr>,
             \<lparr>idx = 2, license = ''L2'', is_default = 1, license_expiry_date = Some 90\<rparr>,
             \<lparr>idx = 3, license = ''L3'', is_default = 1, license_expiry_date = None\<rparr>]\<rparr>"
          "\<lparr>idx = 2, license = ''L2'', is_default = 1, license_expiry_date = Some 90\<rparr>"
          "Some 90" "''N-2''"]
    by (simp add: example_parties_def example_compliance_def)
next
  show "validate_entity_license example_parties example_compliance 100 ''Supplier'' ''Beta'' =
     Inr (Some ''L3'', [StatusUnverifiable ''N-3''])"
    using validate_entity_license_cases
      [of example_parties example_compliance 100 "''Supplier''" "''Beta''"
          "\<lparr>doc_name = ''Beta'', licenses =
            [\<lparr>idx = 1, license = ''L3'', is_default = 1, license_expiry_date = None\<rparr>]\<rparr>"
          "\<lparr>idx = 1, license = ''L3'', is_default = 1, license_expiry_date = None\<rparr>"
          "None" "''N-3''"]
    by (simp add: example_parties_def example_compliance_def)
qed

section \<open>Billable propagation\<close>

text \<open>
  The records of the host's document store that the billable cascade reads and writes.
  Every document has a \<open>name\<close>, its primary key; link fields hold the name of the
  document they point to.
\<close>

record project =
  proj_name :: string
  project_type :: string
  project_template :: string
  proj_billable :: int

record task =
  task_name :: string
  task_project :: string
  task_billable :: int

record timesheet_detail =
  tsd_name :: string
  tsd_project :: string
  tsd_task :: string
  tsd_billable :: int

record db =
  tabProject :: "project list"
  tabTask :: "task list"
  tabTimesheet_Detail :: "timesheet_detail list"

text \<open>
  Modelled from the spec: \<open>frappe.scrub\<close> of the host framework, which turns a doctype
  name into a field name: blanks and hyphens become underscores and the text is put in
  lower case (ASCII letters here).
\<close>

definition lower_char :: "char \<Rightarrow> char" where
  "lower_char c =
     (case map_of (zip ''ABCDEFGHIJKLMNOPQRSTUVWXYZ'' ''abcdefghijklmnopqrstuvwxyz'') c of
        None \<Rightarrow> c | Some l \<Rightarrow> l)"

definition scrub :: "string \<Rightarrow> string" where
  "scrub txt =
     map lower_char
       (map (\<lambda>c. if c = CHR ''-'' then CHR ''_'' else c)
          (map (\<lambda>c. if c = CHR '' '' then CHR ''_'' else c) txt))"

text \<open>
  \<open>frappe.get_all(doctype, filters={field: value})\<close>: the names of the rows whose
  field has the value.  A field the doctype does not have is an error of the database.
\<close>

definition timesheet_detail_field :: "string \<Rightarrow> (timesheet_detail \<Rightarrow> string) option" where
  "timesheet_detail_field f =
     (if f = ''name'' then Some tsd_name
      else if f = ''project'' then Some tsd_project
      else if f = ''task'' then Some tsd_task
      else None)"

definition project_field :: "string \<Rightarrow> (project \<Rightarrow> string) option" where
  "project_field f =
     (if f = ''name'' then Some proj_name
      else if f = ''project_type'' then Some project_type
      else if f = ''project_template'' then Some project_template
      else None)"

definition get_all_timesheet_detail :: "string \<Rightarrow> string \<Rightarrow> db \<Rightarrow> error + string list" where
  "get_all_timesheet_detail field v d =
     (case timesheet_detail_field field of
        None \<Rightarrow> Inl (DatabaseError field)
      | Some get \<Rightarrow> Inr (map tsd_name (filter (\<lambda>r. get r = v) (tabTimesheet_Detail d))))"

definition get_all_project :: "string \<Rightarrow> string \<Rightarrow> db \<Rightarrow> error + string list" where
  "get_all_project field v d =
     (case project_field field of
        None \<Rightarrow> Inl (DatabaseError field)
      | Some get \<Rightarrow> Inr (map proj_name (filter (\<lambda>p. get p = v) (tabProject d))))"

definition get_all_task_of_project :: "string \<Rightarrow> db \<Rightarrow> string list" where
  "get_all_task_of_project p d = map task_name (filter (\<lambda>t. task_project t = p) (tabTask d))"

text \<open>
  \<open>frappe.get_doc\<close> loads the document of a name and raises when there is none;
  \<open>doc.save()\<close> writes the document back under its name;
  \<open>frappe.db.set_value\<close> updates one field of the rows of a name.
\<close>

definition get_doc_project :: "string \<Rightarrow> db \<Rightarrow> project option" where
  "get_doc_project n d = find (\<lambda>p. proj_name p = n) (tabProject d)"

definition get_doc_task :: "string \<Rightarrow> db \<Rightarrow> task option" where
  "get_doc_task n d = find (\<lambda>t. task_name t = n) (tabTask d)"

definition save_project :: "project \<Rightarrow> db \<Rightarrow> db" where
  "save_project doc d =
     d\<lparr>tabProject := map (\<lambda>p. if proj_name p = proj_name doc then doc else p) (tabProject d)\<rparr>"

definition save_task :: "task \<Rightarrow> db \<Rightarrow> db" where
  "save_task doc d =
     d\<lparr>tabTask := map (\<lambda>t. if task_name t = task_name doc then doc else t) (tabTask d)\<rparr>"

definition set_value_billable :: "string \<Rightarrow> int \<Rightarrow> db \<Rightarrow> db" where
  "set_value_billable n billable d =
     d\<lparr>tabTimesheet_Detail :=
         map (\<lambda>r. if tsd_name r = n then r\<lparr>tsd_billable := billable\<rparr> else r)
           (tabTimesheet_Detail d)\<rparr>"

text \<open>\<open>update_linked_tasks\<close>, lines 122 to 130: the loop, then the function.\<close>

fun update_tasks_loop :: "string list \<Rightarrow> int \<Rightarrow> db \<Rightarrow> error + db" where
  "update_tasks_loop [] billable d = Inr d"
| "update_tasks_loop (n # ns) billable d =
     (case get_doc_task n d of
        None \<Rightarrow> Inl (DoesNotExistError ''Task'' n)
      | Some task_doc \<Rightarrow>
          update_tasks_loop ns billable (save_task (task_doc\<lparr>task_billable := billable\<rparr>) d))"

definition update_linked_tasks :: "string \<Rightarrow> int \<Rightarrow> db \<Rightarrow> error + (string list \<times> db)" where
  "update_linked_tasks project billable d =
     (let tasks = get_all_task_of_project project d in
      case update_tasks_loop tasks billable d of
        Inl e \<Rightarrow> Inl e
      | Inr d' \<Rightarrow> Inr (tasks, d'))"

text \<open>\<open>update_linked_projects\<close>, lines 110 to 119.\<close>

fun update_projects_loop :: "string list \<Rightarrow> int \<Rightarrow> db \<Rightarrow> error + db" where
  "update_projects_loop [] billable d = Inr d"
| "update_projects_loop (n # ns) billable d =
     (case get_doc_project n d of
        None \<Rightarrow> Inl (DoesNotExistError ''Project'' n)
      | Some project_doc \<Rightarrow>
          (case update_linked_tasks n billable
                  (save_project (project_doc\<lparr>proj_billable := billable\<rparr>) d) of
             Inl e \<Rightarrow> Inl e
           | Inr (ts, d') \<Rightarrow> update_projects_loop ns billable d'))"

definition update_linked_projects ::
  "string \<Rightarrow> string \<Rightarrow> int \<Rightarrow> db \<Rightarrow> error + (string list \<times> db)" where
  "update_linked_projects ref_field ref_value billable d =
     (case get_all_project ref_field ref_value d of
        Inl e \<Rightarrow> Inl e
      | Inr projects \<Rightarrow>
          (case update_projects_loop projects billable d of
             Inl e \<Rightarrow> Inl e
           | Inr d' \<Rightarrow> Inr (projects, d')))"

text \<open>\<open>get_project_time_logs\<close>, lines 133 and 134.\<close>

definition get_project_time_logs :: "string \<Rightarrow> db \<Rightarrow> string list" where
  "get_project_time_logs project d =
     map tsd_name (filter (\<lambda>r. tsd_project r = project) (tabTimesheet_Detail d))"

text \<open>
  \<open>update_timesheet_logs\<close>, lines 94 to 107: first the time logs are collected (none
  for a reference doctype that is none of the four), then the loop sets the field.
\<close>

fun set_billable_loop :: "string list \<Rightarrow> int \<Rightarrow> db \<Rightarrow> db" where
  "set_billable_loop [] billable d = d"
| "set_billable_loop (log # logs) billable d =
     set_billable_loop logs billable (set_value_billable log billable d)"

definition collect_time_logs ::
  "string \<Rightarrow> string \<Rightarrow> int \<Rightarrow> db \<Rightarrow> error + (string list \<times> db)" where
  "collect_time_logs ref_dt ref_dn billable d =
     (if ref_dt \<in> set [''Project'', ''Task''] then
        (case get_all_timesheet_detail (scrub ref_dt) ref_dn d of
           Inl e \<Rightarrow> Inl e
         | Inr time_logs \<Rightarrow> Inr (time_logs, d))
      else if ref_dt \<in> set [''Project Type'', ''Project Template''] then
        (case update_linked_projects (scrub ref_dt) ref_dn billable d of
           Inl e \<Rightarrow> Inl e
         | Inr (projects, d') \<Rightarrow>
             (let time_logs = map (\<lambda>project. get_project_time_logs project d') projects in
              Inr (concat time_logs, d')))
      else Inr ([], d))"

definition update_timesheet_logs :: "string \<Rightarrow> string \<Rightarrow> int \<Rightarrow> db \<Rightarrow> error + db" where
  "update_timesheet_logs ref_dt ref_dn billable d =
     (case collect_time_logs ref_dt ref_dn billable d of
        Inl e \<Rightarrow> Inl e
      | Inr (time_logs, d') \<Rightarrow> Inr (set_billable_loop time_logs billable d'))"

text \<open>
  What the specification says the cascade does, as one function on the store: the rows
  that match get the flag, every other row and every other field stays.
\<close>

definition mark_timesheet_details :: "(timesheet_detail \<Rightarrow> bool) \<Rightarrow> int \<Rightarrow> db \<Rightarrow> db" where
  "mark_timesheet_details P billable d =
     d\<lparr>tabTimesheet_Detail :=
         map (\<lambda>r. if P r then r\<lparr>tsd_billable := billable\<rparr> else r) (tabTimesheet_Detail d)\<rparr>"

definition mark_tasks :: "(task \<Rightarrow> bool) \<Rightarrow> int \<Rightarrow> db \<Rightarrow> db" where
  "mark_tasks P billable d =
     d\<lparr>tabTask := map (\<lambda>t. if P t then t\<lparr>task_billable := billable\<rparr> else t) (tabTask d)\<rparr>"

definition mark_projects :: "(project \<Rightarrow> bool) \<Rightarrow> int \<Rightarrow> db \<Rightarrow> db" where
  "mark_projects P billable d =
     d\<lparr>tabProject := map (\<lambda>p. if P p then p\<lparr>proj_billable := billable\<rparr> else p) (tabProject d)\<rparr>"

text \<open>The names of the projects whose field \<open>get\<close> has the value \<open>v\<close>.\<close>

definition projects_of :: "(project \<Rightarrow> string) \<Rightarrow> string \<Rightarrow> db \<Rightarrow> string list" where
  "projects_of get v d = map proj_name (filter (\<lambda>p. get p = v) (tabProject d))"

definition cascade :: "(project \<Rightarrow> string) \<Rightarrow> string \<Rightarrow> int \<Rightarrow> db \<Rightarrow> db" where
  "cascade get v billable d =
     mark_timesheet_details (\<lambda>r. tsd_project r \<in> set (projects_of get v d)) billable
       (mark_tasks (\<lambda>t. task_project t \<in> set (projects_of get v d)) billable
          (mark_projects (\<lambda>p. get p = v) billable d))"

text \<open>Names are primary keys: no two rows of a table share one.\<close>

definition unique_names :: "db \<Rightarrow> bool" where
  "unique_names d \<longleftrightarrow>
     distinct (map proj_name (tabProject d)) \<and>
     distinct (map task_name (tabTask d)) \<and>
     distinct (map tsd_name (tabTimesheet_Detail d))"

section \<open>Properties of the billable propagation\<close>

lemma set_billable_loop_eq:
  "set_billable_loop logs billable d =
     mark_timesheet_details (\<lambda>r. tsd_name r \<in> set logs) billable d"
proof (induction logs arbitrary: d)
  case Nil
  then show ?case by (simp add: mark_timesheet_details_def)
next
  case (Cons log logs)
  show ?case
    by (simp add: Cons.IH mark_timesheet_details_def set_value_billable_def)
qed

lemma name_in_filtered_iff:
  assumes "distinct (map nm xs)" and "x \<in> set xs"
  shows "nm x \<in> set (map nm (filter P xs)) \<longleftrightarrow> P x"
proof
  assume "nm x \<in> set (map nm (filter P xs))"
  then obtain y where y: "y \<in> set xs" "P y" "nm y = nm x"
    by auto
  from assms(1) have "inj_on nm (set xs)"
    by (simp add: distinct_map)
  with y assms(2) have "y = x"
    by (auto dest: inj_onD)
  with y show "P x" by simp
next
  assume "P x"
  with assms(2) show "nm x \<in> set (map nm (filter P xs))"
    by auto
qed

lemma mark_by_filtered_names:
  assumes "distinct (map nm xs)"
  shows "map (\<lambda>x. if nm x \<in> set (map nm (filter P xs)) then f x else x) xs =
         map (\<lambda>x. if P x then f x else x) xs"
  using name_in_filtered_iff [OF assms] by (intro map_cong) auto


lemma find_by_name_unique:
  assumes "distinct (map nm xs)" and "find (\<lambda>x. nm x = n) xs = Some t"
    and "x \<in> set xs" and "nm x = n"
  shows "x = t"
proof -
  from assms(2) have "t \<in> set xs" and "nm t = n"
    by (auto simp: find_Some_iff)
  moreover from assms(1) have "inj_on nm (set xs)"
    by (simp add: distinct_map)
  ultimately show ?thesis
    using assms(3,4) by (auto dest: inj_onD)
qed

lemma find_by_name_exists:
  assumes "n \<in> nm ` set xs"
  shows "\<exists>t. find (\<lambda>x. nm x = n) xs = Some t"
proof (cases "find (\<lambda>x. nm x = n) xs")
  case None
  with assms show ?thesis by (auto simp: find_None_iff)
next
  case (Some t)
  then show ?thesis by simp
qed

lemma save_task_eq:
  assumes "distinct (map task_name (tabTask d))" and "get_doc_task n d = Some t"
  shows "save_task (t\<lparr>task_billable := b\<rparr>) d = mark_tasks (\<lambda>x. task_name x = n) b d"
proof -
  from assms(2) have tn: "task_name t = n"
    by (auto simp: get_doc_task_def find_Some_iff)
  have "map (\<lambda>x. if task_name x = n then t\<lparr>task_billable := b\<rparr> else x) (tabTask d) =
        map (\<lambda>x. if task_name x = n then x\<lparr>task_billable := b\<rparr> else x) (tabTask d)"
  proof (intro map_cong refl)
    fix x assume "x \<in> set (tabTask d)"
    then show "(if task_name x = n then t\<lparr>task_billable := b\<rparr> else x) =
               (if task_name x = n then x\<lparr>task_billable := b\<rparr> else x)"
      using find_by_name_unique [OF assms(1), of n t x] assms(2)
      by (auto simp: get_doc_task_def)
  qed
  with tn show ?thesis
    by (simp add: save_task_def mark_tasks_def)
qed

lemma save_project_eq:
  assumes "distinct (map proj_name (tabProject d))" and "get_doc_project n d = Some t"
  shows "save_project (t\<lparr>proj_billable := b\<rparr>) d = mark_projects (\<lambda>x. proj_name x = n) b d"
proof -
  from assms(2) have tn: "proj_name t = n"
    by (auto simp: get_doc_project_def find_Some_iff)
  have "map (\<lambda>x. if proj_name x = n then t\<lparr>proj_billable := b\<rparr> else x) (tabProject d) =
        map (\<lambda>x. if proj_name x = n then x\<lparr>proj_billable := b\<rparr> else x) (tabProject d)"
  proof (intro map_cong refl)
    fix x assume "x \<in> set (tabProject d)"
    then show "(if proj_name x = n then t\<lparr>proj_billable := b\<rparr> else x) =
               (if proj_name x = n then x\<lparr>proj_billable := b\<rparr> else x)"
      using find_by_name_unique [OF assms(1), of n t x] assms(2)
      by (auto simp: get_doc_project_def)
  qed
  with tn show ?thesis
    by (simp add: save_project_def mark_projects_def)
qed

lemma task_names_mark_tasks [simp]:
  "map task_name (tabTask (mark_tasks P b d)) = map task_name (tabTask d)"
  by (simp add: mark_tasks_def comp_def)

lemma mark_tasks_twice:
  assumes "\<And>t. P (t\<lparr>task_billable := b\<rparr>) = P t"
  shows "mark_tasks P b (mark_tasks Q b d) = mark_tasks (\<lambda>t. Q t \<or> P t) b d"
proof -
  have "map ((\<lambda>t. if P t then t\<lparr>task_billable := b\<rparr> else t) \<circ>
             (\<lambda>t. if Q t then t\<lparr>task_billable := b\<rparr> else t)) (tabTask d) =
        map (\<lambda>t. if Q t \<or> P t then t\<lparr>task_billable := b\<rparr> else t) (tabTask d)"
    by (intro map_cong refl) (simp add: assms)
  then show ?thesis
    by (simp add: mark_tasks_def)
qed

lemma update_tasks_loop_eq:
  assumes "distinct (map task_name (tabTask d))" and "set ns \<subseteq> task_name ` set (tabTask d)"
  shows "update_tasks_loop ns b d = Inr (mark_tasks (\<lambda>t. task_name t \<in> set ns) b d)"
  using assms
proof (induction ns arbitrary: d)
  case Nil
  have "map (\<lambda>t. t) (tabTask d) = tabTask d" by simp
  then show ?case by (simp add: mark_tasks_def)
next
  case (Cons n ns)
  from Cons.prems(2) obtain t where t: "get_doc_task n d = Some t"
    using find_by_name_exists [of n task_name "tabTask d"] by (auto simp: get_doc_task_def)
  let ?d1 = "mark_tasks (\<lambda>x. task_name x = n) b d"
  have s: "save_task (t\<lparr>task_billable := b\<rparr>) d = ?d1"
    by (rule save_task_eq [OF Cons.prems(1) t])
  have d1: "distinct (map task_name (tabTask ?d1))"
    using Cons.prems(1) by simp
  have "set (map task_name (tabTask ?d1)) = set (map task_name (tabTask d))"
    by simp
  then have sub: "set ns \<subseteq> task_name ` set (tabTask ?d1)"
    using Cons.prems(2) by (simp only: set_map) auto
  have "update_tasks_loop (n # ns) b d = update_tasks_loop ns b ?d1"
    using t s by simp
  also have "\<dots> = Inr (mark_tasks (\<lambda>t. task_name t \<in> set ns) b ?d1)"
    by (rule Cons.IH [OF d1 sub])
  also have "mark_tasks (\<lambda>t. task_name t \<in> set ns) b ?d1 =
             mark_tasks (\<lambda>t. task_name t = n \<or> task_name t \<in> set ns) b d"
    by (rule mark_tasks_twice) simp
  finally show ?case
    by (simp add: disj_commute eq_commute [of n])
qed

lemma update_linked_tasks_eq:
  assumes "distinct (map task_name (tabTask d))"
  shows "update_linked_tasks p b d =
           Inr (get_all_task_of_project p d, mark_tasks (\<lambda>t. task_project t = p) b d)"
proof -
  have "set (get_all_task_of_project p d) \<subseteq> task_name ` set (tabTask d)"
    by (auto simp: get_all_task_of_project_def)
  from update_tasks_loop_eq [OF assms this]
  have "update_tasks_loop (get_all_task_of_project p d) b d =
          Inr (mark_tasks (\<lambda>t. task_name t \<in> set (get_all_task_of_project p d)) b d)" .
  moreover have "mark_tasks (\<lambda>t. task_name t \<in> set (get_all_task_of_project p d)) b d =
                 mark_tasks (\<lambda>t. task_project t = p) b d"
    using mark_by_filtered_names [OF assms, of "\<lambda>t. task_project t = p" "\<lambda>t. t\<lparr>task_billable := b\<rparr>"]
    by (simp add: mark_tasks_def get_all_task_of_project_def)
  ultimately show ?thesis
    by (simp add: update_linked_tasks_def)
qed

lemma proj_names_mark_projects [simp]:
  "map proj_name (tabProject (mark_projects P b d)) = map proj_name (tabProject d)"
  by (simp add: mark_projects_def comp_def)

lemma tables_mark [simp]:
  "tabTask (mark_projects P b d) = tabTask d"
  "tabTimesheet_Detail (mark_projects P b d) = tabTimesheet_Detail d"
  "tabProject (mark_tasks Q b d) = tabProject d"
  "tabTimesheet_Detail (mark_tasks Q b d) = tabTimesheet_Detail d"
  by (simp_all add: mark_projects_def mark_tasks_def)

lemma mark_projects_twice:
  assumes "\<And>p. P (p\<lparr>proj_billable := b\<rparr>) = P p"
  shows "mark_projects P b (mark_projects Q b d) = mark_projects (\<lambda>p. Q p \<or> P p) b d"
proof -
  have "map ((\<lambda>p. if P p then p\<lparr>proj_billable := b\<rparr> else p) \<circ>
             (\<lambda>p. if Q p then p\<lparr>proj_billable := b\<rparr> else p)) (tabProject d) =
        map (\<lambda>p. if Q p \<or> P p then p\<lparr>proj_billable := b\<rparr> else p) (tabProject d)"
    by (intro map_cong refl) (simp add: assms)
  then show ?thesis
    by (simp add: mark_projects_def)
qed

lemma mark_projects_mark_tasks:
  "mark_projects P b (mark_tasks Q b d) = mark_tasks Q b (mark_projects P b d)"
  by (simp add: mark_projects_def mark_tasks_def)

lemma update_projects_loop_eq:
  assumes "distinct (map proj_name (tabProject d))" and "distinct (map task_name (tabTask d))"
    and "set ns \<subseteq> proj_name ` set (tabProject d)"
  shows "update_projects_loop ns b d =
           Inr (mark_tasks (\<lambda>t. task_project t \<in> set ns) b
                  (mark_projects (\<lambda>p. proj_name p \<in> set ns) b d))"
  using assms
proof (induction ns arbitrary: d)
  case Nil
  have "map (\<lambda>t. t) (tabTask d) = tabTask d" "map (\<lambda>t. t) (tabProject d) = tabProject d"
    by simp_all
  then show ?case by (simp add: mark_tasks_def mark_projects_def)
next
  case (Cons n ns)
  from Cons.prems(3) obtain t where t: "get_doc_project n d = Some t"
    using find_by_name_exists [of n proj_name "tabProject d"] by (auto simp: get_doc_project_def)
  let ?d1 = "mark_projects (\<lambda>x. proj_name x = n) b d"
  let ?d2 = "mark_tasks (\<lambda>x. task_project x = n) b ?d1"
  have s: "save_project (t\<lparr>proj_billable := b\<rparr>) d = ?d1"
    by (rule save_project_eq [OF Cons.prems(1) t])
  have "distinct (map task_name (tabTask ?d1))"
    using Cons.prems(2) by simp
  then have u: "update_linked_tasks n b ?d1 = Inr (get_all_task_of_project n ?d1, ?d2)"
    by (rule update_linked_tasks_eq)
  have dp: "distinct (map proj_name (tabProject ?d2))"
    using Cons.prems(1) by simp
  have dt: "distinct (map task_name (tabTask ?d2))"
    using Cons.prems(2) by simp
  have "set (map proj_name (tabProject ?d2)) = set (map proj_name (tabProject d))"
    by simp
  then have sub: "set ns \<subseteq> proj_name ` set (tabProject ?d2)"
    using Cons.prems(3) by (simp only: set_map) auto
  have "update_projects_loop (n # ns) b d = update_projects_loop ns b ?d2"
    using t s u by simp
  also have "\<dots> = Inr (mark_tasks (\<lambda>t. task_project t \<in> set ns) b
                        (mark_projects (\<lambda>p. proj_name p \<in> set ns) b ?d2))"
    by (rule Cons.IH [OF dp dt sub])
  also have "mark_projects (\<lambda>p. proj_name p \<in> set ns) b ?d2 =
             mark_tasks (\<lambda>x. task_project x = n) b
               (mark_projects (\<lambda>p. proj_name p = n \<or> proj_name p \<in> set ns) b d)"
    by (simp add: mark_projects_mark_tasks mark_projects_twice)
  also have "mark_tasks (\<lambda>t. task_project t \<in> set ns) b
               (mark_tasks (\<lambda>x. task_project x = n) b
                  (mark_projects (\<lambda>p. proj_name p = n \<or> proj_name p \<in> set ns) b d)) =
             mark_tasks (\<lambda>t. task_project t = n \<or> task_project t \<in> set ns) b
               (mark_projects (\<lambda>p. proj_name p = n \<or> proj_name p \<in> set ns) b d)"
    by (rule mark_tasks_twice) simp
  finally show ?case
    by (simp add: eq_commute [of n])
qed

lemma update_linked_projects_eq:
  assumes "distinct (map proj_name (tabProject d))" and "distinct (map task_name (tabTask d))"
    and "project_field f = Some get"
  shows "update_linked_projects f v b d =
           Inr (projects_of get v d,
                mark_tasks (\<lambda>t. task_project t \<in> set (projects_of get v d)) b
                  (mark_projects (\<lambda>p. get p = v) b d))"
proof -
  have "set (projects_of get v d) \<subseteq> proj_name ` set (tabProject d)"
    by (auto simp: projects_of_def)
  from update_projects_loop_eq [OF assms(1,2) this]
  have "update_projects_loop (projects_of get v d) b d =
          Inr (mark_tasks (\<lambda>t. task_project t \<in> set (projects_of get v d)) b
                 (mark_projects (\<lambda>p. proj_name p \<in> set (projects_of get v d)) b d))" .
  moreover have "mark_projects (\<lambda>p. proj_name p \<in> set (projects_of get v d)) b d =
                 mark_projects (\<lambda>p. get p = v) b d"
    using mark_by_filtered_names [OF assms(1), of "\<lambda>p. get p = v" "\<lambda>p. p\<lparr>proj_billable := b\<rparr>"]
    by (simp add: mark_projects_def projects_of_def)
  ultimately show ?thesis
    using assms(3) by (simp add: update_linked_projects_def get_all_project_def projects_of_def)
qed

lemma time_logs_of_projects:
  assumes "distinct (map tsd_name (tabTimesheet_Detail d))"
  shows "mark_timesheet_details
           (\<lambda>r. tsd_name r \<in> set (concat (map (\<lambda>p. get_project_time_logs p d) ps))) b d =
         mark_timesheet_details (\<lambda>r. tsd_project r \<in> set ps) b d"
proof -
  have "set (concat (map (\<lambda>p. get_project_time_logs p d) ps)) =
        set (map tsd_name (filter (\<lambda>r. tsd_project r \<in> set ps) (tabTimesheet_Detail d)))"
    by (auto simp: get_project_time_logs_def)
  then show ?thesis
    using mark_by_filtered_names [OF assms, of "\<lambda>r. tsd_project r \<in> set ps"
        "\<lambda>r. r\<lparr>tsd_billable := b\<rparr>"]
    by (simp add: mark_timesheet_details_def)
qed

lemma update_timesheet_logs_cascade:
  assumes "unique_names d" and "project_field (scrub ref_dt) = Some get"
    and "ref_dt \<in> set [''Project Type'', ''Project Template'']"
  shows "update_timesheet_logs ref_dt ref_dn b d = Inr (cascade get ref_dn b d)"
proof -
  let ?ps = "projects_of get ref_dn d"
  let ?d' = "mark_tasks (\<lambda>t. task_project t \<in> set ?ps) b (mark_projects (\<lambda>p. get p = ref_dn) b d)"
  from assms(1) have u: "update_linked_projects (scrub ref_dt) ref_dn b d = Inr (?ps, ?d')"
    by (intro update_linked_projects_eq assms(2)) (simp_all add: unique_names_def)
  from assms(3) have "ref_dt \<notin> set [''Project'', ''Task'']"
    by auto
  with assms(3) u
  have "collect_time_logs ref_dt ref_dn b d =
          Inr (concat (map (\<lambda>p. get_project_time_logs p ?d') ?ps), ?d')"
    by (simp add: collect_time_logs_def)
  then have A: "update_timesheet_logs ref_dt ref_dn b d =
      Inr (mark_timesheet_details
             (\<lambda>r. tsd_name r \<in> set (concat (map (\<lambda>p. get_project_time_logs p ?d') ?ps))) b ?d')"
    by (simp add: update_timesheet_logs_def set_billable_loop_eq)
  from assms(1) have dd: "distinct (map tsd_name (tabTimesheet_Detail ?d'))"
    by (simp add: unique_names_def)
  show ?thesis
    by (simp only: A time_logs_of_projects [OF dd] cascade_def)
qed

lemma cascade_expand:
  "cascade get v b d =
     \<lparr>tabProject = map (\<lambda>p. if get p = v then p\<lparr>proj_billable := b\<rparr> else p) (tabProject d),
      tabTask = map (\<lambda>t. if task_project t \<in> set (projects_of get v d)
                          then t\<lparr>task_billable := b\<rparr> else t) (tabTask d),
      tabTimesheet_Detail = map (\<lambda>r. if tsd_project r \<in> set (projects_of get v d)
                          then r\<lparr>tsd_billable := b\<rparr> else r) (tabTimesheet_Detail d)\<rparr>"
  by (cases d) (simp add: cascade_def mark_timesheet_details_def mark_tasks_def mark_projects_def)

lemma scrub_doctypes:
  "scrub ''Project'' = ''project''"
  "scrub ''Task'' = ''task''"
  "scrub ''Project Type'' = ''project_type''"
  "scrub ''Project Template'' = ''project_template''"
  by (simp_all add: scrub_def lower_char_def)

text \<open>
  A store with three projects, two of type \<open>Internal\<close> with two tasks each, and one
  timesheet row for each project.
\<close>

definition example_db :: db where
  "example_db =
     \<lparr>tabProject =
        [\<lparr>proj_name = ''P1'', project_type = ''Internal'', project_template = ''Std'', proj_billable = 0\<rparr>,
         \<lparr>proj_name = ''P2'', project_type = ''Internal'', project_template = ''Big'', proj_billable = 0\<rparr>,
         \<lparr>proj_name = ''P3'', project_type = ''External'', project_template = ''Std'', proj_billable = 0\<rparr>],
      tabTask =
        [\<lparr>task_name = ''T1'', task_project = ''P1'', task_billable = 0\<rparr>,
         \<lparr>task_name = ''T2'', task_project = ''P1'', task_billable = 0\<rparr>,
         \<lparr>task_name = ''T3'', task_project = ''P2'', task_billable = 0\<rparr>,
         \<lparr>task_name = ''T4'', task_project = ''P2'', task_billable = 0\<rparr>,
         \<lparr>task_name = ''T5'', task_project = ''P3'', task_billable = 0\<rparr>],
      tabTimesheet_Detail =
        [\<lparr>tsd_name = ''D1'', tsd_project = ''P1'', tsd_task = ''T1'', tsd_billable = 0\<rparr>,
         \<lparr>tsd_name = ''D2'', tsd_project = ''P2'', tsd_task = ''T3'', tsd_billable = 0\<rparr>,
         \<lparr>tsd_name = ''D3'', tsd_project = ''P3'', tsd_task = ''T5'', tsd_billable = 0\<rparr>]\<rparr>"

lemma unique_names_example_db: "unique_names example_db"
  by (simp add: unique_names_def example_db_def)

text \<open>
  Claim C5.  In a store whose names are unique, \<open>update_timesheet_logs\<close> with the
  reference doctype \<open>Project Type\<close> (or \<open>Project Template\<close>) succeeds and leaves the
  store in which every project whose \<open>project_type\<close> (or \<open>project_template\<close>) is
  \<open>ref_dn\<close> has the given billable flag, every task whose project is one of those
  projects has it, and every timesheet row whose project is one of those projects has
  it; nothing else is changed.
\<close>

theorem update_timesheet_logs_project_type:
  assumes "unique_names d"
  shows "update_timesheet_logs ''Project Type'' ref_dn billable d =
           Inr \<lparr>tabProject =
                  map (\<lambda>p. if project_type p = ref_dn then p\<lparr>proj_billable := billable\<rparr> else p)
                    (tabProject d),
                tabTask =
                  map (\<lambda>t. if task_project t \<in> set (projects_of project_type ref_dn d)
                            then t\<lparr>task_billable := billable\<rparr> else t) (tabTask d),
                tabTimesheet_Detail =
                  map (\<lambda>r. if tsd_project r \<in> set (projects_of project_type ref_dn d)
                            then r\<lparr>tsd_billable := billable\<rparr> else r) (tabTimesheet_Detail d)\<rparr> \<and>
         update_timesheet_logs ''Project Template'' ref_dn billable d =
           Inr \<lparr>tabProject =
                  map (\<lambda>p. if project_template p = ref_dn then p\<lparr>proj_billable := billable\<rparr> else p)
                    (tabProject d),
                tabTask =
                  map (\<lambda>t. if task_project t \<in> set (projects_of project_template ref_dn d)
                            then t\<lparr>task_billable := billable\<rparr> else t) (tabTask d),
                tabTimesheet_Detail =
                  map (\<lambda>r. if tsd_project r \<in> set (projects_of project_template ref_dn d)
                            then r\<lparr>tsd_billable := billable\<rparr> else r) (tabTimesheet_Detail d)\<rparr>"
proof
  have "project_field (scrub ''Project Type'') = Some project_type"
    by (simp add: scrub_doctypes project_field_def)
  from update_timesheet_logs_cascade [OF assms this]
  show "update_timesheet_logs ''Project Type'' ref_dn billable d =
           Inr \<lparr>tabProject =
                  map (\<lambda>p. if project_type p = ref_dn then p\<lparr>proj_billable := billable\<rparr> else p)
                    (tabProject d),
                tabTask =
                  map (\<lambda>t. if task_project t \<in> set (projects_of project_type ref_dn d)
                            then t\<lparr>task_billable := billable\<rparr> else t) (tabTask d),
                tabTimesheet_Detail =
                  map (\<lambda>r. if tsd_project r \<in> set (projects_of project_type ref_dn d)
                            then r\<lparr>tsd_billable := billable\<rparr> else r) (tabTimesheet_Detail d)\<rparr>"
    by (simp add: cascade_expand)
next
  have "project_field (scrub ''Project Template'') = Some project_template"
    by (simp add: scrub_doctypes project_field_def)
  from update_timesheet_logs_cascade [OF assms this]
  show "update_timesheet_logs ''Project Template'' ref_dn billable d =
           Inr \<lparr>tabProject =
                  map (\<lambda>p. if project_template p = ref_dn then p\<lparr>proj_billable := billable\<rparr> else p)
                    (tabProject d),
                tabTask =
                  map (\<lambda>t. if task_project t \<in> set (projects_of project_template ref_dn d)
                            then t\<lparr>task_billable := billable\<rparr> else t) (tabTask d),
                tabTimesheet_Detail =
                  map (\<lambda>r. if tsd_project r \<in> set (projects_of project_template ref_dn d)
                            then r\<lparr>tsd_billable := billable\<rparr> else r) (tabTimesheet_Detail d)\<rparr>"
    by (simp add: cascade_expand)
qed

theorem update_timesheet_logs_project_type_witness:
  "update_timesheet_logs ''Project Type'' ''Internal'' 1 example_db =
     Inr \<lparr>tabProject =
        [\<lparr>proj_name = ''P1'', project_type = ''Internal'', project_template = ''Std'', proj_billable = 1\<rparr>,
         \<lparr>proj_name = ''P2'', project_type = ''Internal'', project_template = ''Big'', proj_billable = 1\<rparr>,
         \<lparr>proj_name = ''P3'', project_type = ''External'', project_template = ''Std'', proj_billable = 0\<rparr>],
      tabTask =
        [\<lparr>task_name = ''T1'', task_project = ''P1'', task_billable = 1\<rparr>,
         \<lparr>task_name = ''T2'', task_project = ''P1'', task_billable = 1\<rparr>,
         \<lparr>task_name = ''T3'', task_project = ''P2'', task_billable = 1\<rparr>,
         \<lparr>task_name = ''T4'', task_project = ''P2'', task_billable = 1\<rparr>,
         \<lparr>task_name = ''T5'', task_project = ''P3'', task_billable = 0\<rparr>],
      tabTimesheet_Detail =
        [\<lparr>tsd_name = ''D1'', tsd_project = ''P1'', tsd_task = ''T1'', tsd_billable = 1\<rparr>,
         \<lparr>tsd_name = ''D2'', tsd_project = ''P2'', tsd_task = ''T3'', tsd_billable = 1\<rparr>,
         \<lparr>tsd_name = ''D3'', tsd_project = ''P3'', tsd_task = ''T5'', tsd_billable = 0\<rparr>]\<rparr> \<and>
   update_timesheet_logs ''Project Template'' ''Std'' 1 example_db =
     Inr \<lparr>tabProject =
        [\<lparr>proj_name = ''P1'', project_type = ''Internal'', project_template = ''Std'', proj_billable = 1\<rparr>,
         \<lparr>proj_name = ''P2'', project_type = ''Internal'', project_template = ''Big'', proj_billable = 0\<rparr>,
         \<lparr>proj_name = ''P3'', project_type = ''External'', project_template = ''Std'', proj_billable = 1\<rparr>],
      tabTask =
        [\<lparr>task_name = ''T1'', task_project = ''P1'', task_billable = 1\<rparr>,
         \<lparr>task_name = ''T2'', task_project = ''P1'', task_billable = 1\<rparr>,
         \<lparr>task_name = ''T3'', task_project = ''P2'', task_billable = 0\<rparr>,
         \<lparr>task_name = ''T4'', task_project = ''P2'', task_billable = 0\<rparr>,
         \<lparr>task_name = ''T5'', task_project = ''P3'', task_billable = 1\<rparr>],
      tabTimesheet_Detail =
        [\<lparr>tsd_name = ''D1'', tsd_project = ''P1'', tsd_task = ''T1'', tsd_billable = 1\<rparr>,
         \<lparr>tsd_name = ''D2'', tsd_project = ''P2'', tsd_task = ''T3'', tsd_billable = 0\<rparr>,
         \<lparr>tsd_name = ''D3'', tsd_project = ''P3'', tsd_task = ''T5'', tsd_billable = 1\<rparr>]\<rparr>"
proof
  from update_timesheet_logs_project_type [OF unique_names_example_db, of "''Internal''" 1]
  show "update_timesheet_logs ''Project Type'' ''Internal'' 1 example_db =
     Inr \<lparr>tabProject =
        [\<lparr>proj_name = ''P1'', project_type = ''Internal'', project_template = ''Std'', proj_billable = 1\<rparr>,
         \<lparr>proj_name = ''P2'', project_type = ''Internal'', project_template = ''Big'', proj_billable = 1\<rparr>,
         \<lparr>proj_name = ''P3'', project_type = ''External'', project_template = ''Std'', proj_billable = 0\<rparr>],
      tabTask =
        [\<lparr>task_name = ''T1'', task_project = ''P1'', task_billable = 1\<rparr>,
         \<lparr>task_name = ''T2'', task_project = ''P1'', task_billable = 1\<rparr>,
         \<lparr>task_name = ''T3'', task_project = ''P2'', task_billable = 1\<rparr>,
         \<lparr>task_name = ''T4'', task_project = ''P2'', task_billable = 1\<rparr>,
         \<lparr>task_name = ''T5'', task_project = ''P3'', task_billable = 0\<rparr>],
      tabTimesheet_Detail =
        [\<lparr>tsd_name = ''D1'', tsd_project = ''P1'', tsd_task = ''T1'', tsd_billable = 1\<rparr>,
         \<lparr>tsd_name = ''D2'', tsd_project = ''P2'', tsd_task = ''T3'', tsd_billable = 1\<rparr>,
         \<lparr>tsd_name = ''D3'', tsd_project = ''P3'', tsd_task = ''T5'', tsd_billable = 0\<rparr>]\<rparr>"
    by (simp add: example_db_def projects_of_def)
next
  from update_timesheet_logs_project_type [OF unique_names_example_db, of "''Std''" 1]
  show "update_timesheet_logs ''Project Template'' ''Std'' 1 example_db =
     Inr \<lparr>tabProject =
        [\<lparr>proj_name = ''P1'', project_type = ''Internal'', project_template = ''Std'', proj_billable = 1\<rparr>,
         \<lparr>proj_name = ''P2'', project_type = ''Internal'', project_template = ''Big'', proj_billable = 0\<rparr>,
         \<lparr>proj_name = ''P3'', project_type = ''External'', project_template = ''Std'', proj_billable = 1\<rparr>],
      tabTask =
        [\<lparr>task_name = ''T1'', task_project = ''P1'', task_billable = 1\<rparr>,
         \<lparr>task_name = ''T2'', task_project = ''P1'', task_billable = 1\<rparr>,
         \<lparr>task_name = ''T3'', task_project = ''P2'', task_billable = 0\<rparr>,
         \<lparr>task_name = ''T4'', task_project = ''P2'', task_billable = 0\<rparr>,
         \<lparr>task_name = ''T5'', task_project = ''P3'', task_billable = 1\<rparr>],
      tabTimesheet_Detail =
        [\<lparr>tsd_name = ''D1'', tsd_project = ''P1'', tsd_task = ''T1'', tsd_billable = 1\<rparr>,
         \<lparr>tsd_name = ''D2'', tsd_project = ''P2'', tsd_task = ''T3'', tsd_billable = 0\<rparr>,
         \<lparr>tsd_name = ''D3'', tsd_project = ''P3'', tsd_task = ''T5'', tsd_billable = 1\<rparr>]\<rparr>"
    by (simp add: example_db_def projects_of_def)
qed

text \<open>
  Claim C6.  In a store whose timesheet rows have unique names,
  \<open>update_timesheet_logs\<close> with the reference doctype \<open>Task\<close> succeeds and changes
  the store only in the billable field of the timesheet rows whose \<open>task\<close> is
  \<open>ref_dn\<close>; with \<open>Project\<close>, of those whose \<open>project\<close> is \<open>ref_dn\<close>.  The
  projects, the tasks and every other timesheet row stay as they were.
\<close>

theorem update_timesheet_logs_task_project:
  assumes "distinct (map tsd_name (tabTimesheet_Detail d))"
  shows "update_timesheet_logs ''Task'' ref_dn billable d =
           Inr (d\<lparr>tabTimesheet_Detail :=
                    map (\<lambda>r. if tsd_task r = ref_dn then r\<lparr>tsd_billable := billable\<rparr> else r)
                      (tabTimesheet_Detail d)\<rparr>) \<and>
         update_timesheet_logs ''Project'' ref_dn billable d =
           Inr (d\<lparr>tabTimesheet_Detail :=
                    map (\<lambda>r. if tsd_project r = ref_dn then r\<lparr>tsd_billable := billable\<rparr> else r)
                      (tabTimesheet_Detail d)\<rparr>)"
proof
  have "collect_time_logs ''Task'' ref_dn billable d =
          Inr (map tsd_name (filter (\<lambda>r. tsd_task r = ref_dn) (tabTimesheet_Detail d)), d)"
    by (simp add: collect_time_logs_def scrub_doctypes get_all_timesheet_detail_def
        timesheet_detail_field_def)
  then show "update_timesheet_logs ''Task'' ref_dn billable d =
           Inr (d\<lparr>tabTimesheet_Detail :=
                    map (\<lambda>r. if tsd_task r = ref_dn then r\<lparr>tsd_billable := billable\<rparr> else r)
                      (tabTimesheet_Detail d)\<rparr>)"
    using mark_by_filtered_names [OF assms, of "\<lambda>r. tsd_task r = ref_dn"
        "\<lambda>r. r\<lparr>tsd_billable := billable\<rparr>"]
    by (simp add: update_timesheet_logs_def set_billable_loop_eq mark_timesheet_details_def)
next
  have "collect_time_logs ''Project'' ref_dn billable d =
          Inr (map tsd_name (filter (\<lambda>r. tsd_project r = ref_dn) (tabTimesheet_Detail d)), d)"
    by (simp add: collect_time_logs_def scrub_doctypes get_all_timesheet_detail_def
        timesheet_detail_field_def)
  then show "update_timesheet_logs ''Project'' ref_dn billable d =
           Inr (d\<lparr>tabTimesheet_Detail :=
                    map (\<lambda>r. if tsd_project r = ref_dn then r\<lparr>tsd_billable := billable\<rparr> else r)
                      (tabTimesheet_Detail d)\<rparr>)"
    using mark_by_filtered_names [OF assms, of "\<lambda>r. tsd_project r = ref_dn"
        "\<lambda>r. r\<lparr>tsd_billable := billable\<rparr>"]
    by (simp add: update_timesheet_logs_def set_billable_loop_eq mark_timesheet_details_def)
qed

theorem update_timesheet_logs_task_project_witness:
  "update_timesheet_logs ''Task'' ''T3'' 1 example_db =
     Inr (example_db\<lparr>tabTimesheet_Detail :=
        [\<lparr>tsd_name = ''D1'', tsd_project = ''P1'', tsd_task = ''T1'', tsd_billable = 0\<rparr>,
         \<lparr>tsd_name = ''D2'', tsd_project = ''P2'', tsd_task = ''T3'', tsd_billable = 1\<rparr>,
         \<lparr>tsd_name = ''D3'', tsd_project = ''P3'', tsd_task = ''T5'', tsd_billable = 0\<rparr>]\<rparr>) \<and>
   update_timesheet_logs ''Project'' ''P1'' 1 example_db =
     Inr (example_db\<lparr>tabTimesheet_Detail :=
        [\<lparr>tsd_name = ''D1'', tsd_project = ''P1'', tsd_task = ''T1'', tsd_billable = 1\<rparr>,
         \<lparr>tsd_name = ''D2'', tsd_project = ''P2'', tsd_task = ''T3'', tsd_billable = 0\<rparr>,
         \<lparr>tsd_name = ''D3'', tsd_project = ''P3'', tsd_task = ''T5'', tsd_billable = 0\<rparr>]\<rparr>)"
proof -
  have u: "distinct (map tsd_name (tabTimesheet_Detail example_db))"
    by (simp add: example_db_def)
  show ?thesis
    using update_timesheet_logs_task_project [OF u, of "''T3''" 1]
      update_timesheet_logs_task_project [OF u, of "''P1''" 1]
    by (simp add: example_db_def)
qed

text \<open>
  Claim C10.  With a reference doctype that is none of \<open>Project\<close>, \<open>Task\<close>,
  \<open>Project Type\<close> and \<open>Project Template\<close>, \<open>update_timesheet_logs\<close> succeeds
  and returns the store it was given, whatever that store is.
\<close>

theorem update_timesheet_logs_other_doctype:
  assumes "ref_dt \<notin> set [''Project'', ''Task'', ''Project Type'', ''Project Template'']"
  shows "update_timesheet_logs ref_dt ref_dn billable d = Inr d"
  using assms by (simp add: update_timesheet_logs_def collect_time_logs_def)

theorem update_timesheet_logs_other_doctype_witness:
  "update_timesheet_logs ''Timesheet'' ''TS-0001'' 1 example_db = Inr example_db"
proof -
  have "''Timesheet'' \<notin> set [''Project'', ''Task'', ''Project Type'', ''Project Template'']"
    by simp
  from update_timesheet_logs_other_doctype [OF this]
  show ?thesis .
qed

section \<open>Linked-document traversal\<close>

text \<open>
  A linked record as the host's link query returns it, and a node of the result.
\<close>

record link =
  link_name :: string
  link_docstatus :: int

record node =
  node_doctype :: string
  node_name :: string
  node_docstatus :: int
  node_link_count :: nat

text \<open>
  The host's \<open>get_linked_docs(doctype, name, get_linked_doctypes(doctype))\<close>: a
  dictionary from the linked doctype to the linked records, read in its iteration order.
\<close>

type_synonym linked_docs = "(string \<times> link list) list"
type_synonym link_host = "string \<Rightarrow> string \<Rightarrow> linked_docs"

text \<open>\<open>validate_linked_doc\<close>, lines 187 to 192, on the doctype of the record.\<close>

definition validate_linked_doc :: "string \<Rightarrow> bool" where
  "validate_linked_doc doctype \<longleftrightarrow> doctype \<in> set [''Project'', ''Timesheet'', ''Task'']"

text \<open>
  A call of \<open>get_linked_documents\<close> takes the doctype, the name and the list
  \<open>docs\<close>, and returns the list and the count, or does not return.

  The list \<open>docs\<close> is shared by reference.  \<open>if not docs: docs = []\<close> gives the
  call a new list when the list it was given is empty (or \<open>None\<close>): then what the
  call appends is not seen by its caller, whose list stays empty.  When the list it was
  given is not empty the call works on the caller's list, and the caller goes on with
  the list as the call left it.
\<close>

type_synonym traversal = "string \<Rightarrow> string \<Rightarrow> node list \<Rightarrow> (node list \<times> nat) option"

text \<open>The inner loop, lines 160 to 177, over the records of one linked doctype.\<close>

fun links_loop ::
  "traversal \<Rightarrow> string \<Rightarrow> link list \<Rightarrow> node list \<Rightarrow> nat \<Rightarrow> (node list \<times> nat) option" where
  "links_loop rec link_doctype [] docs link_count = Some (docs, link_count)"
| "links_loop rec link_doctype (link # link_names) docs link_count =
     (if \<not> validate_linked_doc link_doctype then
        links_loop rec link_doctype link_names docs link_count
      else if link_name link \<in> set (map node_name docs) then
        links_loop rec link_doctype link_names docs (link_count + 1)
      else
        (case rec link_doctype (link_name link) docs of
           None \<Rightarrow> None
         | Some (child_docs, count) \<Rightarrow>
             links_loop rec link_doctype link_names
               ((if docs = [] then [] else child_docs) @
                [\<lparr>node_doctype = link_doctype, node_name = link_name link,
                  node_docstatus = link_docstatus link, node_link_count = count\<rparr>])
               (link_count + 1)))"

text \<open>The outer loop, line 159, over the linked doctypes.\<close>

fun doctypes_loop ::
  "traversal \<Rightarrow> linked_docs \<Rightarrow> node list \<Rightarrow> nat \<Rightarrow> (node list \<times> nat) option" where
  "doctypes_loop rec [] docs link_count = Some (docs, link_count)"
| "doctypes_loop rec ((link_doctype, link_names) # rest) docs link_count =
     (case links_loop rec link_doctype link_names docs link_count of
        None \<Rightarrow> None
      | Some (docs', link_count') \<Rightarrow> doctypes_loop rec rest docs' link_count')"

text \<open>
  \<open>get_linked_documents\<close>, lines 137 to 184.  The recursion need not end, so the
  function takes the depth of recursion it may use: \<open>None\<close> is a call that needs more.
  \<open>docs = None\<close> and \<open>docs = []\<close> are the same case of the source; both are
  the list \<open>[]\<close> here.  Python's sort is stable, as \<open>sort_key\<close> is.
\<close>

primrec get_linked_documents :: "nat \<Rightarrow> link_host \<Rightarrow> traversal" where
  "get_linked_documents 0 host = (\<lambda>doctype name docs. None)"
| "get_linked_documents (Suc fuel) host = (\<lambda>doctype name docs.
     (case doctypes_loop (get_linked_documents fuel host) (host doctype name) docs 0 of
        None \<Rightarrow> None
      | Some (docs', link_count) \<Rightarrow> Some (sort_key node_link_count docs', link_count)))"

text \<open>The number of linked records of a document whose doctype is allowed.\<close>

definition accepted_count :: "linked_docs \<Rightarrow> nat" where
  "accepted_count linked =
     sum_list (map (\<lambda>(link_doctype, link_names).
                 if validate_linked_doc link_doctype then length link_names else 0) linked)"

section \<open>Properties of the traversal\<close>

lemma links_loop_count:
  "links_loop rec dt ls docs c = Some (docs', c') \<Longrightarrow>
     c' = c + (if validate_linked_doc dt then length ls else 0)"
proof (induction ls arbitrary: docs c)
  case Nil
  then show ?case by simp
next
  case (Cons l ls)
  show ?case
  proof (cases "validate_linked_doc dt")
    case False
    with Cons.prems have "links_loop rec dt ls docs c = Some (docs', c')"
      by simp
    from Cons.IH [OF this] False show ?thesis by simp
  next
    case True
    show ?thesis
    proof (cases "link_name l \<in> set (map node_name docs)")
      case seen: True
      with True Cons.prems have "links_loop rec dt ls docs (c + 1) = Some (docs', c')"
        by simp
      from Cons.IH [OF this] True show ?thesis by simp
    next
      case new: False
      with True Cons.prems obtain d1 where
        "links_loop rec dt ls d1 (c + 1) = Some (docs', c')"
        by (auto split: option.splits)
      from Cons.IH [OF this] True show ?thesis by simp
    qed
  qed
qed

lemma doctypes_loop_count:
  "doctypes_loop rec linked docs c = Some (docs', c') \<Longrightarrow> c' = c + accepted_count linked"
proof (induction linked arbitrary: docs c)
  case Nil
  then show ?case by (simp add: accepted_count_def)
next
  case (Cons a linked)
  obtain dt ls where a: "a = (dt, ls)" by (cases a)
  from Cons.prems a obtain d1 c1 where
    1: "links_loop rec dt ls docs c = Some (d1, c1)" and
    2: "doctypes_loop rec linked d1 c1 = Some (docs', c')"
    by (auto split: option.splits)
  from links_loop_count [OF 1] Cons.IH [OF 2] a show ?case
    by (simp add: accepted_count_def)
qed

lemma links_loop_disallowed:
  "\<not> validate_linked_doc dt \<Longrightarrow> links_loop rec dt ls docs c = Some (docs, c)"
  by (induction ls) simp_all

lemma doctypes_loop_disallowed:
  "list_all (\<lambda>(dt, ls). \<not> validate_linked_doc dt) linked \<Longrightarrow>
     doctypes_loop rec linked docs c = Some (docs, c)"
  by (induction linked) (auto simp: links_loop_disallowed)

lemma links_loop_visited:
  "validate_linked_doc dt \<Longrightarrow> list_all (\<lambda>l. link_name l \<in> node_name ` set docs) ls \<Longrightarrow>
     links_loop rec dt ls docs c = Some (docs, c + length ls)"
  by (induction ls arbitrary: c) simp_all

text \<open>
  The example of the specification: project \<open>P1\<close> is linked to task \<open>T1\<close>, which
  has no links, and to a customer.
\<close>

definition example_links :: link_host where
  "example_links doctype name =
     (if doctype = ''Project'' \<and> name = ''P1'' then
        [(''Task'', [\<lparr>link_name = ''T1'', link_docstatus = 0\<rparr>]),
         (''Customer'', [\<lparr>link_name = ''C1'', link_docstatus = 0\<rparr>])]
      else [])"

text \<open>
  Claim C1.  Called without \<open>docs\<close>, \<open>get_linked_documents\<close> returns the empty
  list and the count 0 for a document with no linked records, and for a document whose
  linked records all have doctypes outside the allow-list.  Whenever a call returns, the
  list it returns is sorted by ascending link count, and the count is the number of
  linked records of the document with an allowed doctype.  For project \<open>P1\<close> linked
  to task \<open>T1\<close> (no links of its own, docstatus 0) and to one record of a doctype
  that is not allowed, in either order, the result is the one node of \<open>T1\<close> with link
  count 0, and the count 1.
\<close>

theorem get_linked_documents_result:
  "(host doctype name = [] \<longrightarrow>
      get_linked_documents (Suc fuel) host doctype name [] = Some ([], 0)) \<and>
   (list_all (\<lambda>(dt, ls). \<not> validate_linked_doc dt) (host doctype name) \<longrightarrow>
      get_linked_documents (Suc fuel) host doctype name [] = Some ([], 0)) \<and>
   (get_linked_documents fuel host doctype name docs0 = Some (docs, count) \<longrightarrow>
      sorted (map node_link_count docs) \<and> count = accepted_count (host doctype name)) \<and>
   ((host ''Project'' ''P1'' =
        [(''Task'', [\<lparr>link_name = ''T1'', link_docstatus = 0\<rparr>]), (other, [l])] \<or>
     host ''Project'' ''P1'' =
        [(other, [l]), (''Task'', [\<lparr>link_name = ''T1'', link_docstatus = 0\<rparr>])]) \<and>
    \<not> validate_linked_doc other \<and> host ''Task'' ''T1'' = [] \<longrightarrow>
      get_linked_documents (Suc (Suc fuel)) host ''Project'' ''P1'' [] =
        Some ([\<lparr>node_doctype = ''Task'', node_name = ''T1'', node_docstatus = 0,
                 node_link_count = 0\<rparr>], 1))"
proof (intro conjI impI)
  assume "host doctype name = []"
  then show "get_linked_documents (Suc fuel) host doctype name [] = Some ([], 0)"
    by simp
next
  assume "list_all (\<lambda>(dt, ls). \<not> validate_linked_doc dt) (host doctype name)"
  then show "get_linked_documents (Suc fuel) host doctype name [] = Some ([], 0)"
    by (simp add: doctypes_loop_disallowed)
next
  assume r: "get_linked_documents fuel host doctype name docs0 = Some (docs, count)"
  then obtain n where n: "fuel = Suc n"
    by (cases fuel) simp_all
  with r obtain d1 where
    l: "doctypes_loop (get_linked_documents n host) (host doctype name) docs0 0 = Some (d1, count)"
    and d: "docs = sort_key node_link_count d1"
    by (auto split: option.splits)
  from d show "sorted (map node_link_count docs)"
    by (simp add: sorted_sort_key)
  from doctypes_loop_count [OF l] show "count = accepted_count (host doctype name)"
    by simp
next
  assume h: "(host ''Project'' ''P1'' =
        [(''Task'', [\<lparr>link_name = ''T1'', link_docstatus = 0\<rparr>]), (other, [l])] \<or>
     host ''Project'' ''P1'' =
        [(other, [l]), (''Task'', [\<lparr>link_name = ''T1'', link_docstatus = 0\<rparr>])]) \<and>
    \<not> validate_linked_doc other \<and> host ''Task'' ''T1'' = []"
  have t: "validate_linked_doc ''Task''"
    by (simp add: validate_linked_doc_def)
  from h have c: "get_linked_documents (Suc fuel) host ''Task'' ''T1'' [] = Some ([], 0)"
    by simp
  from h show "get_linked_documents (Suc (Suc fuel)) host ''Project'' ''P1'' [] =
        Some ([\<lparr>node_doctype = ''Task'', node_name = ''T1'', node_docstatus = 0,
                 node_link_count = 0\<rparr>], 1)"
  proof (elim conjE disjE)
    assume "host ''Project'' ''P1'' =
        [(''Task'', [\<lparr>link_name = ''T1'', link_docstatus = 0\<rparr>]), (other, [l])]"
      and "\<not> validate_linked_doc other"
    then show ?thesis
      using t c by (simp del: get_linked_documents.simps(2)
          add: get_linked_documents.simps(2) [of "Suc fuel"])
  next
    assume "host ''Project'' ''P1'' =
        [(other, [l]), (''Task'', [\<lparr>link_name = ''T1'', link_docstatus = 0\<rparr>])]"
      and "\<not> validate_linked_doc other"
    then show ?thesis
      using t c by (simp del: get_linked_documents.simps(2)
          add: get_linked_documents.simps(2) [of "Suc fuel"])
  qed
qed

theorem get_linked_documents_result_witness:
  "get_linked_documents 1 example_links ''Task'' ''T1'' [] = Some ([], 0) \<and>
   get_linked_documents 1 example_links ''Customer'' ''C1'' [] = Some ([], 0) \<and>
   get_linked_documents 2 example_links ''Project'' ''P1'' [] =
     Some ([\<lparr>node_doctype = ''Task'', node_name = ''T1'', node_docstatus = 0,
              node_link_count = 0\<rparr>], 1) \<and>
   sorted (map node_link_count
     [\<lparr>node_doctype = ''Task'', node_name = ''T1'', node_docstatus = 0, node_link_count = 0\<rparr>]) \<and>
   accepted_count (example_links ''Project'' ''P1'') = 1"
proof -
  have e: "example_links ''Project'' ''P1'' =
      [(''Task'', [\<lparr>link_name = ''T1'', link_docstatus = 0\<rparr>]),
       (''Customer'', [\<lparr>link_name = ''C1'', link_docstatus = 0\<rparr>])]"
    "example_links ''Task'' ''T1'' = []" "example_links ''Customer'' ''C1'' = []"
    "\<not> validate_linked_doc ''Customer''"
    by (simp_all add: example_links_def validate_linked_doc_def)
  have p: "get_linked_documents 2 example_links ''Project'' ''P1'' [] =
     Some ([\<lparr>node_doctype = ''Task'', node_name = ''T1'', node_docstatus = 0,
              node_link_count = 0\<rparr>], 1)"
    using get_linked_documents_result [where host = example_links and fuel = 0
        and other = "''Customer''" and l = "\<lparr>link_name = ''C1'', link_docstatus = 0\<rparr>",
        THEN conjunct2, THEN conjunct2, THEN conjunct2] e
    by (simp del: get_linked_documents.simps add: numeral_2_eq_2)
  have t: "get_linked_documents 1 example_links ''Task'' ''T1'' [] = Some ([], 0)"
    using get_linked_documents_result [where host = example_links and fuel = 0
        and doctype = "''Task''" and name = "''T1''", THEN conjunct1] e
    by (simp del: get_linked_documents.simps)
  have c: "get_linked_documents 1 example_links ''Customer'' ''C1'' [] = Some ([], 0)"
    using get_linked_documents_result [where host = example_links and fuel = 0
        and doctype = "''Customer''" and name = "''C1''", THEN conjunct1] e
    by (simp del: get_linked_documents.simps)
  from get_linked_documents_result [where host = example_links and doctype = "''Project''"
      and name = "''P1''" and fuel = 2 and ?docs0.0 = "[]" and count = 1 and docs =
      "[\<lparr>node_doctype = ''Task'', node_name = ''T1'', node_docstatus = 0, node_link_count = 0\<rparr>]",
      THEN conjunct2, THEN conjunct2, THEN conjunct1] p
  have "sorted (map node_link_count
     [\<lparr>node_doctype = ''Task'', node_name = ''T1'', node_docstatus = 0, node_link_count = 0\<rparr>]) \<and>
   1 = accepted_count (example_links ''Project'' ''P1'')"
    by (simp del: get_linked_documents.simps)
  with p t c show ?thesis
    by (simp del: get_linked_documents.simps)
qed

text \<open>
  With no recursive call available, the loops return exactly when they need none: when
  every linked record of an allowed doctype has the name of an entry of \<open>docs\<close>.
\<close>

definition all_visited :: "linked_docs \<Rightarrow> node list \<Rightarrow> bool" where
  "all_visited linked docs =
     list_all (\<lambda>(link_doctype, link_names).
                 \<not> validate_linked_doc link_doctype \<or>
                 list_all (\<lambda>l. link_name l \<in> node_name ` set docs) link_names) linked"

lemma links_loop_no_call:
  "links_loop (\<lambda>dt n d. None) dt ls docs c =
     (if \<not> validate_linked_doc dt then Some (docs, c)
      else if list_all (\<lambda>l. link_name l \<in> node_name ` set docs) ls
      then Some (docs, c + length ls) else None)"
  by (induction ls arbitrary: c) simp_all

lemma doctypes_loop_no_call:
  "doctypes_loop (\<lambda>dt n d. None) linked docs c =
     (if all_visited linked docs then Some (docs, c + accepted_count linked) else None)"
proof (induction linked arbitrary: c)
  case Nil
  show ?case by (simp add: all_visited_def accepted_count_def)
next
  case (Cons a linked)
  obtain dt ls where a: "a = (dt, ls)" by (cases a)
  have 1: "all_visited (a # linked) docs \<longleftrightarrow>
        (\<not> validate_linked_doc dt \<or> list_all (\<lambda>l. link_name l \<in> node_name ` set docs) ls) \<and>
        all_visited linked docs"
    by (simp add: all_visited_def a)
  have 2: "accepted_count (a # linked) =
        (if validate_linked_doc dt then length ls else 0) + accepted_count linked"
    by (simp add: accepted_count_def a)
  show ?case
    by (simp only: a doctypes_loop.simps links_loop_no_call 1 [unfolded a] 2 [unfolded a])
      (simp add: Cons.IH)
qed

text \<open>
  Claim C2.  A call of \<open>get_linked_documents\<close> is the two loops over the linked
  records, from the count 0, and the sort.  In the loops, for the record at hand and
  whatever records follow it: a record of a doctype that is not allowed is discarded,
  the count and \<open>docs\<close> stay; a record of an allowed doctype whose name is the name
  of an entry of the current \<open>docs\<close> (of whatever doctype) adds one to the count,
  with no recursive call and nothing appended; a record of an allowed doctype whose name
  is the name of no entry adds one to the count, makes the recursive call on the current
  \<open>docs\<close> and appends its node with the count that call returned.  So a record
  that repeats the name of the record before it is counted and not visited again; the
  count a call returns is the number of linked records of an allowed doctype; and a call
  that may make no recursive call returns exactly when every linked record of an allowed
  doctype has the name of an entry of \<open>docs\<close>, with \<open>docs\<close> sorted and that
  count.
\<close>

theorem get_linked_documents_accept_skip:
  "get_linked_documents (Suc fuel) host doctype name docs =
     (case doctypes_loop (get_linked_documents fuel host) (host doctype name) docs 0 of
        None \<Rightarrow> None
      | Some (docs', n) \<Rightarrow> Some (sort_key node_link_count docs', n)) \<and>
   doctypes_loop rec [] docs c = Some (docs, c) \<and>
   doctypes_loop rec ((dt, ls) # rest) docs c =
     (case links_loop rec dt ls docs c of
        None \<Rightarrow> None
      | Some (docs', c') \<Rightarrow> doctypes_loop rec rest docs' c') \<and>
   links_loop rec dt [] docs c = Some (docs, c) \<and>
   (\<not> validate_linked_doc dt \<longrightarrow>
      links_loop rec dt (l # ls) docs c = links_loop rec dt ls docs c) \<and>
   (validate_linked_doc dt \<and> link_name l \<in> node_name ` set docs \<longrightarrow>
      links_loop rec dt (l # ls) docs c = links_loop rec dt ls docs (c + 1)) \<and>
   (validate_linked_doc dt \<and> link_name l \<notin> node_name ` set docs \<longrightarrow>
      links_loop rec dt (l # ls) docs c =
        (case rec dt (link_name l) docs of
           None \<Rightarrow> None
         | Some (child_docs, n) \<Rightarrow>
             links_loop rec dt ls
               ((if docs = [] then [] else child_docs) @
                [\<lparr>node_doctype = dt, node_name = link_name l,
                  node_docstatus = link_docstatus l, node_link_count = n\<rparr>])
               (c + 1))) \<and>
   (validate_linked_doc dt \<and> link_name l \<notin> node_name ` set docs \<and>
    link_name l' = link_name l \<and> rec dt (link_name l) docs = Some (child_docs, n) \<longrightarrow>
      links_loop rec dt [l, l'] docs c =
        Some ((if docs = [] then [] else child_docs) @
              [\<lparr>node_doctype = dt, node_name = link_name l,
                node_docstatus = link_docstatus l, node_link_count = n\<rparr>], c + 2)) \<and>
   (get_linked_documents fuel host doctype name docs = Some (docs', count) \<longrightarrow>
      count = accepted_count (host doctype name)) \<and>
   get_linked_documents (Suc 0) host doctype name docs =
     (if all_visited (host doctype name) docs
      then Some (sort_key node_link_count docs, accepted_count (host doctype name))
      else None)"
proof (intro conjI impI)
  show "get_linked_documents (Suc fuel) host doctype name docs =
     (case doctypes_loop (get_linked_documents fuel host) (host doctype name) docs 0 of
        None \<Rightarrow> None
      | Some (docs', n) \<Rightarrow> Some (sort_key node_link_count docs', n))"
    by simp
next
  show "doctypes_loop rec [] docs c = Some (docs, c)"
    by simp
next
  show "doctypes_loop rec ((dt, ls) # rest) docs c =
     (case links_loop rec dt ls docs c of
        None \<Rightarrow> None
      | Some (docs', c') \<Rightarrow> doctypes_loop rec rest docs' c')"
    by simp
next
  show "links_loop rec dt [] docs c = Some (docs, c)"
    by simp
next
  assume "\<not> validate_linked_doc dt"
  then show "links_loop rec dt (l # ls) docs c = links_loop rec dt ls docs c"
    by simp
next
  assume "validate_linked_doc dt \<and> link_name l \<in> node_name ` set docs"
  then show "links_loop rec dt (l # ls) docs c = links_loop rec dt ls docs (c + 1)"
    by simp
next
  assume "validate_linked_doc dt \<and> link_name l \<notin> node_name ` set docs"
  then show "links_loop rec dt (l # ls) docs c =
        (case rec dt (link_name l) docs of
           None \<Rightarrow> None
         | Some (child_docs, n) \<Rightarrow>
             links_loop rec dt ls
               ((if docs = [] then [] else child_docs) @
                [\<lparr>node_doctype = dt, node_name = link_name l,
                  node_docstatus = link_docstatus l, node_link_count = n\<rparr>])
               (c + 1))"
    by (simp split: option.splits)
next
  assume "validate_linked_doc dt \<and> link_name l \<notin> node_name ` set docs \<and>
    link_name l' = link_name l \<and> rec dt (link_name l) docs = Some (child_docs, n)"
  then show "links_loop rec dt [l, l'] docs c =
        Some ((if docs = [] then [] else child_docs) @
              [\<lparr>node_doctype = dt, node_name = link_name l,
                node_docstatus = link_docstatus l, node_link_count = n\<rparr>], c + 2)"
    by simp
next
  assume r: "get_linked_documents fuel host doctype name docs = Some (docs', count)"
  then obtain k where k: "fuel = Suc k"
    by (cases fuel) simp_all
  with r obtain d1 where
    "doctypes_loop (get_linked_documents k host) (host doctype name) docs 0 = Some (d1, count)"
    by (auto split: option.splits)
  from doctypes_loop_count [OF this] show "count = accepted_count (host doctype name)"
    by simp
next
  show "get_linked_documents (Suc 0) host doctype name docs =
     (if all_visited (host doctype name) docs
      then Some (sort_key node_link_count docs, accepted_count (host doctype name))
      else None)"
    by (simp add: doctypes_loop_no_call)
qed

text \<open>
  Project \<open>P\<close> with the same task linked twice, a timesheet of the same name and a
  customer.
\<close>

definition dup_links :: link_host where
  "dup_links doctype name =
     (if doctype = ''Project'' \<and> name = ''P'' then
        [(''Task'', [\<lparr>link_name = ''X'', link_docstatus = 0\<rparr>,
                     \<lparr>link_name = ''X'', link_docstatus = 0\<rparr>]),
         (''Timesheet'', [\<lparr>link_name = ''X'', link_docstatus = 0\<rparr>]),
         (''Customer'', [\<lparr>link_name = ''C'', link_docstatus = 0\<rparr>])]
      else [])"

theorem get_linked_documents_accept_skip_witness:
  "get_linked_documents 2 dup_links ''Project'' ''P'' [] =
     Some ([\<lparr>node_doctype = ''Task'', node_name = ''X'', node_docstatus = 0,
              node_link_count = 0\<rparr>], 3) \<and>
   get_linked_documents 1 dup_links ''Project'' ''P'' [] = None \<and>
   get_linked_documents 1 dup_links ''Project'' ''P''
     [\<lparr>node_doctype = ''Project'', node_name = ''X'', node_docstatus = 0, node_link_count = 7\<rparr>] =
     Some ([\<lparr>node_doctype = ''Project'', node_name = ''X'', node_docstatus = 0,
              node_link_count = 7\<rparr>], 3) \<and>
   links_loop (get_linked_documents 1 dup_links) ''Task''
     [\<lparr>link_name = ''X'', link_docstatus = 0\<rparr>, \<lparr>link_name = ''X'', link_docstatus = 0\<rparr>] [] 0 =
     Some ([\<lparr>node_doctype = ''Task'', node_name = ''X'', node_docstatus = 0,
              node_link_count = 0\<rparr>], 2) \<and>
   links_loop (\<lambda>dt n docs. None) ''Customer'' [\<lparr>link_name = ''C'', link_docstatus = 0\<rparr>] [] 4 =
     Some ([], 4)"
proof (intro conjI)
  have v: "validate_linked_doc ''Task''" "validate_linked_doc ''Timesheet''"
    "\<not> validate_linked_doc ''Customer''"
    by (simp_all add: validate_linked_doc_def)
  have x: "get_linked_documents 1 dup_links ''Task'' ''X'' [] = Some ([], 0)"
    by (simp add: dup_links_def)
  show d: "links_loop (get_linked_documents 1 dup_links) ''Task''
     [\<lparr>link_name = ''X'', link_docstatus = 0\<rparr>, \<lparr>link_name = ''X'', link_docstatus = 0\<rparr>] [] 0 =
     Some ([\<lparr>node_doctype = ''Task'', node_name = ''X'', node_docstatus = 0,
              node_link_count = 0\<rparr>], 2)"
    using v x get_linked_documents_accept_skip [where rec = "get_linked_documents 1 dup_links"
        and dt = "''Task''" and l = "\<lparr>link_name = ''X'', link_docstatus = 0\<rparr>"
        and l' = "\<lparr>link_name = ''X'', link_docstatus = 0\<rparr>" and docs = "[]" and c = 0
        and child_docs = "[]" and n = 0,
        THEN conjunct2,
        THEN conjunct2,
        THEN conjunct2,
        THEN conjunct2,
        THEN conjunct2,
        THEN conjunct2,
        THEN conjunct2,
        THEN conjunct1]
    by (simp del: get_linked_documents.simps links_loop.simps)
  have "get_linked_documents (Suc 1) dup_links ''Project'' ''P'' [] =
     (case doctypes_loop (get_linked_documents 1 dup_links) (dup_links ''Project'' ''P'') [] 0 of
        None \<Rightarrow> None
      | Some (docs', n) \<Rightarrow> Some (sort_key node_link_count docs', n))"
    using get_linked_documents_accept_skip [where fuel = 1 and host = dup_links
        and doctype = "''Project''" and name = "''P''" and docs = "[]",
        THEN conjunct1]
    by (simp del: get_linked_documents.simps)
  moreover have "doctypes_loop (get_linked_documents 1 dup_links) (dup_links ''Project'' ''P'') [] 0 =
      Some ([\<lparr>node_doctype = ''Task'', node_name = ''X'', node_docstatus = 0,
               node_link_count = 0\<rparr>], 3)"
    using v d by (simp del: get_linked_documents.simps add: dup_links_def)
  ultimately show "get_linked_documents 2 dup_links ''Project'' ''P'' [] =
     Some ([\<lparr>node_doctype = ''Task'', node_name = ''X'', node_docstatus = 0,
              node_link_count = 0\<rparr>], 3)"
    by (simp del: get_linked_documents.simps add: numeral_2_eq_2)
  show "get_linked_documents 1 dup_links ''Project'' ''P'' [] = None"
    using v get_linked_documents_accept_skip [where host = dup_links
        and doctype = "''Project''" and name = "''P''" and docs = "[]",
        THEN conjunct2,
        THEN conjunct2,
        THEN conjunct2,
        THEN conjunct2,
        THEN conjunct2,
        THEN conjunct2,
        THEN conjunct2,
        THEN conjunct2,
        THEN conjunct2]
    by (simp del: get_linked_documents.simps add: all_visited_def dup_links_def)
  show "get_linked_documents 1 dup_links ''Project'' ''P''
     [\<lparr>node_doctype = ''Project'', node_name = ''X'', node_docstatus = 0, node_link_count = 7\<rparr>] =
     Some ([\<lparr>node_doctype = ''Project'', node_name = ''X'', node_docstatus = 0,
              node_link_count = 7\<rparr>], 3)"
    using v get_linked_documents_accept_skip [where host = dup_links
        and doctype = "''Project''" and name = "''P''" and docs =
        "[\<lparr>node_doctype = ''Project'', node_name = ''X'', node_docstatus = 0, node_link_count = 7\<rparr>]",
        THEN conjunct2,
        THEN conjunct2,
        THEN conjunct2,
        THEN conjunct2,
        THEN conjunct2,
        THEN conjunct2,
        THEN conjunct2,
        THEN conjunct2,
        THEN conjunct2]
    by (simp del: get_linked_documents.simps
        add: all_visited_def accepted_count_def dup_links_def)
  show "links_loop (\<lambda>dt n docs. None) ''Customer'' [\<lparr>link_name = ''C'', link_docstatus = 0\<rparr>] [] 4 =
     Some ([], 4)"
    using v get_linked_documents_accept_skip [where rec = "\<lambda>dt n docs. None"
        and dt = "''Customer''" and l = "\<lparr>link_name = ''C'', link_docstatus = 0\<rparr>"
        and ls = "[]" and docs = "[]" and c = 4,
        THEN conjunct2,
        THEN conjunct2,
        THEN conjunct2,
        THEN conjunct2,
        THEN conjunct1]
      get_linked_documents_accept_skip [where rec = "\<lambda>dt n docs. None"
        and dt = "''Customer''" and docs = "[]" and c = 4,
        THEN conjunct2,
        THEN conjunct2,
        THEN conjunct2,
        THEN conjunct1]
    by (simp del: get_linked_documents.simps links_loop.simps)
qed

section \<open>Termination of the traversal\<close>

text \<open>
  A document is a doctype and a name.  The allow-listed links of a document are the
  linked records with an allowed doctype, as documents: the candidates for a recursive
  call.
\<close>

type_synonym document = "string \<times> string"

definition accepted_links :: "link_host \<Rightarrow> document \<Rightarrow> document list" where
  "accepted_links host p =
     concat (map (\<lambda>(link_doctype, link_names).
                    if validate_linked_doc link_doctype
                    then map (\<lambda>l. (link_doctype, link_name l)) link_names else [])
               (host (fst p) (snd p)))"

text \<open>
  The link graph, as pairs of a linked document and the document it is linked to,
  without the links to a document whose name is in \<open>seen\<close>.
\<close>

definition link_graph :: "link_host \<Rightarrow> string set \<Rightarrow> (document \<times> document) set" where
  "link_graph host seen = {(c, p). c \<in> set (accepted_links host p) \<and> snd c \<notin> seen}"

subsection \<open>More fuel does not change a result\<close>

lemma links_loop_mono:
  assumes "\<And>dt n d r. rec dt n d = Some r \<Longrightarrow> rec' dt n d = Some r"
  shows "links_loop rec dt ls docs c = Some r \<Longrightarrow> links_loop rec' dt ls docs c = Some r"
proof (induction ls arbitrary: docs c)
  case Nil
  then show ?case by simp
next
  case (Cons l ls)
  show ?case
  proof (cases "validate_linked_doc dt \<and> link_name l \<notin> set (map node_name docs)")
    case False
    with Cons show ?thesis by auto
  next
    case True
    with Cons.prems obtain cd n where
      1: "rec dt (link_name l) docs = Some (cd, n)" and
      2: "links_loop rec dt ls
            ((if docs = [] then [] else cd) @
             [\<lparr>node_doctype = dt, node_name = link_name l,
               node_docstatus = link_docstatus l, node_link_count = n\<rparr>]) (c + 1) = Some r"
      by (auto split: option.splits)
    from assms [OF 1] Cons.IH [OF 2] True show ?thesis by simp
  qed
qed

lemma doctypes_loop_mono:
  assumes "\<And>dt n d r. rec dt n d = Some r \<Longrightarrow> rec' dt n d = Some r"
  shows "doctypes_loop rec linked docs c = Some r \<Longrightarrow> doctypes_loop rec' linked docs c = Some r"
proof (induction linked arbitrary: docs c)
  case Nil
  then show ?case by simp
next
  case (Cons a linked)
  obtain dt ls where a: "a = (dt, ls)" by (cases a)
  from Cons.prems a obtain d1 c1 where
    1: "links_loop rec dt ls docs c = Some (d1, c1)" and
    2: "doctypes_loop rec linked d1 c1 = Some r"
    by (auto split: option.splits)
  from links_loop_mono [of rec rec', OF assms 1] Cons.IH [OF 2] a show ?case by simp
qed

lemma get_linked_documents_Suc:
  "get_linked_documents fuel host dt nm docs = Some r \<Longrightarrow>
     get_linked_documents (Suc fuel) host dt nm docs = Some r"
proof (induction fuel arbitrary: dt nm docs r)
  case 0
  then show ?case by simp
next
  case (Suc fuel)
  from Suc.prems obtain d1 c1 where
    1: "doctypes_loop (get_linked_documents fuel host) (host dt nm) docs 0 = Some (d1, c1)" and
    r: "r = (sort_key node_link_count d1, c1)"
    by (auto split: option.splits)
  have "doctypes_loop (get_linked_documents (Suc fuel) host) (host dt nm) docs 0 = Some (d1, c1)"
    by (rule doctypes_loop_mono [OF _ 1]) (rule Suc.IH)
  with r show ?case
    by (simp del: get_linked_documents.simps add: get_linked_documents.simps(2) [of "Suc fuel"])
qed

lemma get_linked_documents_mono:
  "get_linked_documents fuel host dt nm docs = Some r \<Longrightarrow> fuel \<le> fuel' \<Longrightarrow>
     get_linked_documents fuel' host dt nm docs = Some r"
proof (induction fuel' )
  case 0
  then show ?case by simp
next
  case (Suc fuel')
  show ?case
  proof (cases "fuel = Suc fuel'")
    case True
    with Suc.prems show ?thesis by simp
  next
    case False
    with Suc.prems have "fuel \<le> fuel'" by simp
    from get_linked_documents_Suc [OF Suc.IH [OF Suc.prems(1) this]] show ?thesis .
  qed
qed

subsection \<open>Names once in the list stay in the list\<close>

definition keeps :: "string set \<Rightarrow> traversal \<Rightarrow> bool" where
  "keeps seen rec \<longleftrightarrow>
     (\<forall>dt n d d' c. seen \<subseteq> node_name ` set d \<longrightarrow> rec dt n d = Some (d', c) \<longrightarrow>
        seen \<subseteq> node_name ` set d')"

lemma links_loop_keeps:
  assumes "keeps seen rec"
  shows "seen \<subseteq> node_name ` set docs \<Longrightarrow> links_loop rec dt ls docs c = Some (docs', c') \<Longrightarrow>
           seen \<subseteq> node_name ` set docs'"
proof (induction ls arbitrary: docs c)
  case Nil
  then show ?case by simp
next
  case (Cons l ls)
  show ?case
  proof (cases "validate_linked_doc dt \<and> link_name l \<notin> set (map node_name docs)")
    case False
    with Cons show ?thesis by (auto split: if_splits)
  next
    case True
    with Cons.prems obtain cd n where
      1: "rec dt (link_name l) docs = Some (cd, n)" and
      2: "links_loop rec dt ls
            ((if docs = [] then [] else cd) @
             [\<lparr>node_doctype = dt, node_name = link_name l,
               node_docstatus = link_docstatus l, node_link_count = n\<rparr>]) (c + 1) = Some (docs', c')"
      by (auto split: option.splits)
    from assms Cons.prems(1) 1 have "seen \<subseteq> node_name ` set cd"
      unfolding keeps_def by blast
    with Cons.prems(1) have "seen \<subseteq> node_name ` set
            ((if docs = [] then [] else cd) @
             [\<lparr>node_doctype = dt, node_name = link_name l,
               node_docstatus = link_docstatus l, node_link_count = n\<rparr>])"
      by auto
    from Cons.IH [OF this 2] show ?thesis .
  qed
qed

lemma doctypes_loop_keeps:
  assumes "keeps seen rec"
  shows "seen \<subseteq> node_name ` set docs \<Longrightarrow> doctypes_loop rec linked docs c = Some (docs', c') \<Longrightarrow>
           seen \<subseteq> node_name ` set docs'"
proof (induction linked arbitrary: docs c)
  case Nil
  then show ?case by simp
next
  case (Cons a linked)
  obtain dt ls where a: "a = (dt, ls)" by (cases a)
  from Cons.prems a obtain d1 c1 where
    1: "links_loop rec dt ls docs c = Some (d1, c1)" and
    2: "doctypes_loop rec linked d1 c1 = Some (docs', c')"
    by (auto split: option.splits)
  from links_loop_keeps [OF assms Cons.prems(1) 1] have "seen \<subseteq> node_name ` set d1" .
  from Cons.IH [OF this 2] show ?case .
qed

lemma get_linked_documents_keeps: "keeps seen (get_linked_documents fuel host)"
proof (induction fuel)
  case 0
  show ?case by (simp add: keeps_def)
next
  case (Suc fuel)
  show ?case
    unfolding keeps_def
  proof (intro allI impI)
    fix dt n d d' c
    assume s: "seen \<subseteq> node_name ` set d"
      and r: "get_linked_documents (Suc fuel) host dt n d = Some (d', c)"
    from r obtain d1 where
      1: "doctypes_loop (get_linked_documents fuel host) (host dt n) d 0 = Some (d1, c)" and
      d': "d' = sort_key node_link_count d1"
      by (auto split: option.splits)
    from doctypes_loop_keeps [OF Suc s 1] d' show "seen \<subseteq> node_name ` set d'"
      by simp
  qed
qed

subsection \<open>The loops return when the calls they make return\<close>

lemma links_loop_returns:
  assumes k: "keeps seen rec"
    and v: "validate_linked_doc dt \<Longrightarrow>
              \<forall>l\<in>set ls. \<forall>d. link_name l \<notin> seen \<longrightarrow> seen \<subseteq> node_name ` set d \<longrightarrow>
                rec dt (link_name l) d \<noteq> None"
    and s: "seen \<subseteq> node_name ` set docs"
  shows "\<exists>res. links_loop rec dt ls docs c = Some res"
proof (cases "validate_linked_doc dt")
  case False
  then show ?thesis by (simp add: links_loop_disallowed)
next
  case True
  from v [OF True] s show ?thesis
  proof (induction ls arbitrary: docs c)
    case Nil
    show ?case by simp
  next
    case (Cons l ls)
    from Cons.prems(1) have r': "\<forall>l\<in>set ls. \<forall>d. link_name l \<notin> seen \<longrightarrow>
        seen \<subseteq> node_name ` set d \<longrightarrow> rec dt (link_name l) d \<noteq> None"
      by simp
    show ?case
    proof (cases "link_name l \<in> set (map node_name docs)")
      case seen: True
      from Cons.IH [OF r' Cons.prems(2), of "c + 1"] True seen show ?thesis
        by simp
    next
      case new: False
      with Cons.prems(2) have "link_name l \<notin> seen" by auto
      with Cons.prems have "rec dt (link_name l) docs \<noteq> None"
        by simp
      then obtain cd n where 1: "rec dt (link_name l) docs = Some (cd, n)"
        by auto
      from k Cons.prems(2) 1 have "seen \<subseteq> node_name ` set cd"
        unfolding keeps_def by blast
      with Cons.prems(2) have "seen \<subseteq> node_name ` set
              ((if docs = [] then [] else cd) @
               [\<lparr>node_doctype = dt, node_name = link_name l,
                 node_docstatus = link_docstatus l, node_link_count = n\<rparr>])"
        by auto
      from Cons.IH [OF r' this, of "c + 1"] True new 1 show ?thesis
        by simp
    qed
  qed
qed

lemma doctypes_loop_returns:
  assumes k: "keeps seen rec"
    and v: "\<forall>(dt, ls)\<in>set linked. validate_linked_doc dt \<longrightarrow>
              (\<forall>l\<in>set ls. \<forall>d. link_name l \<notin> seen \<longrightarrow> seen \<subseteq> node_name ` set d \<longrightarrow>
                rec dt (link_name l) d \<noteq> None)"
    and s: "seen \<subseteq> node_name ` set docs"
  shows "\<exists>res. doctypes_loop rec linked docs c = Some res"
  using v s
proof (induction linked arbitrary: docs c)
  case Nil
  show ?case by simp
next
  case (Cons a linked)
  obtain dt ls where a: "a = (dt, ls)" by (cases a)
  from Cons.prems(1) a have va: "validate_linked_doc dt \<Longrightarrow>
      \<forall>l\<in>set ls. \<forall>d. link_name l \<notin> seen \<longrightarrow> seen \<subseteq> node_name ` set d \<longrightarrow>
        rec dt (link_name l) d \<noteq> None"
    by simp
  from Cons.prems(1) have vr: "\<forall>(dt, ls)\<in>set linked. validate_linked_doc dt \<longrightarrow>
              (\<forall>l\<in>set ls. \<forall>d. link_name l \<notin> seen \<longrightarrow> seen \<subseteq> node_name ` set d \<longrightarrow>
                rec dt (link_name l) d \<noteq> None)"
    by simp
  from links_loop_returns [OF k va Cons.prems(2)]
  obtain d1 c1 where 1: "links_loop rec dt ls docs c = Some (d1, c1)"
    by fastforce
  from links_loop_keeps [OF k Cons.prems(2) 1] have s1: "seen \<subseteq> node_name ` set d1" .
  from Cons.IH [OF vr s1, of c1] 1 a show ?case
    by simp
qed

lemma uniform_fuel:
  assumes "\<forall>c\<in>set cs. \<exists>fuel::nat. Q fuel c"
    and mono: "\<And>c f f'. Q f c \<Longrightarrow> f \<le> f' \<Longrightarrow> Q f' c"
  shows "\<exists>fuel. \<forall>c\<in>set cs. Q fuel c"
  using assms(1)
proof (induction cs)
  case Nil
  show ?case by simp
next
  case (Cons c cs)
  from Cons.prems obtain f1 where 1: "Q f1 c"
    by auto
  from Cons.prems have "\<forall>c\<in>set cs. \<exists>fuel. Q fuel c"
    by simp
  from Cons.IH [OF this] obtain f2 where 2: "\<forall>c\<in>set cs. Q f2 c"
    by (rule exE)
  have "Q (max f1 f2) c"
    by (rule mono [OF 1]) simp
  moreover have "\<forall>x\<in>set cs. Q (max f1 f2) x"
  proof
    fix x assume "x \<in> set cs"
    with 2 have "Q f2 x" by simp
    then show "Q (max f1 f2) x"
      by (rule mono) simp
  qed
  ultimately have "\<forall>x\<in>set (c # cs). Q (max f1 f2) x"
    by simp
  then show ?case ..
qed

definition returns_within :: "link_host \<Rightarrow> string set \<Rightarrow> nat \<Rightarrow> document \<Rightarrow> bool" where
  "returns_within host seen fuel c \<longleftrightarrow>
     (\<forall>docs. seen \<subseteq> node_name ` set docs \<longrightarrow>
        get_linked_documents fuel host (fst c) (snd c) docs \<noteq> None)"

lemma returns_within_mono:
  assumes "returns_within host seen f c" and "f \<le> f'"
  shows "returns_within host seen f' c"
  unfolding returns_within_def
proof (intro allI impI)
  fix docs :: "node list"
  assume s: "seen \<subseteq> node_name ` set docs"
  with assms(1) obtain r where "get_linked_documents f host (fst c) (snd c) docs = Some r"
    unfolding returns_within_def by auto
  from get_linked_documents_mono [OF this assms(2)]
  show "get_linked_documents f' host (fst c) (snd c) docs \<noteq> None"
    by simp
qed

lemma returns_within_step:
  assumes F: "\<forall>c\<in>set (filter (\<lambda>c. snd c \<notin> seen) (accepted_links host p)).
                returns_within host seen F c"
  shows "returns_within host seen (Suc F) p"
  unfolding returns_within_def
proof (intro allI impI)
  fix docs :: "node list"
  assume s: "seen \<subseteq> node_name ` set docs"
  have call: "get_linked_documents F host dt (link_name l) d \<noteq> None"
    if m: "(dt, ls) \<in> set (host (fst p) (snd p))" "l \<in> set ls" "validate_linked_doc dt"
      and n: "link_name l \<notin> seen" and sd: "seen \<subseteq> node_name ` set d"
    for dt ls l and d :: "node list"
  proof -
    from m have "(dt, link_name l) \<in> set (accepted_links host p)"
      by (force simp: accepted_links_def)
    with n have "(dt, link_name l) \<in> set (filter (\<lambda>c. snd c \<notin> seen) (accepted_links host p))"
      by simp
    then have "returns_within host seen F (dt, link_name l)"
      by (rule bspec [OF F])
    with sd show ?thesis
      by (simp add: returns_within_def)
  qed
  have "\<forall>(dt, ls)\<in>set (host (fst p) (snd p)). validate_linked_doc dt \<longrightarrow>
              (\<forall>l\<in>set ls. \<forall>d. link_name l \<notin> seen \<longrightarrow> seen \<subseteq> node_name ` set d \<longrightarrow>
                get_linked_documents F host dt (link_name l) d \<noteq> None)"
    using call by blast
  from doctypes_loop_returns [OF get_linked_documents_keeps this s]
  have "\<exists>res. doctypes_loop (get_linked_documents F host) (host (fst p) (snd p)) docs 0 = Some res" .
  then obtain res where
    "doctypes_loop (get_linked_documents F host) (host (fst p) (snd p)) docs 0 = Some res"
    by (rule exE)
  then show "get_linked_documents (Suc F) host (fst p) (snd p) docs \<noteq> None"
    by (cases res) simp
qed

lemma get_linked_documents_returns_wf:
  assumes "wf (link_graph host seen)"
  shows "\<exists>fuel. returns_within host seen fuel p"
  using assms
proof (induction p rule: wf_induct_rule)
  case (less p)
  have "\<forall>c\<in>set (filter (\<lambda>c. snd c \<notin> seen) (accepted_links host p)).
          \<exists>fuel. returns_within host seen fuel c"
  proof
    fix c assume "c \<in> set (filter (\<lambda>c. snd c \<notin> seen) (accepted_links host p))"
    then have "(c, p) \<in> link_graph host seen"
      by (simp add: link_graph_def)
    from less.IH [OF this] show "\<exists>fuel. returns_within host seen fuel c" .
  qed
  from uniform_fuel [of _ "returns_within host seen", OF this returns_within_mono]
  obtain F where "\<forall>c\<in>set (filter (\<lambda>c. snd c \<notin> seen) (accepted_links host p)).
                    returns_within host seen F c"
    by (rule exE)
  from returns_within_step [OF this] show ?case ..
qed

subsection \<open>A cycle of two documents\<close>

lemma two_cycle_diverges:
  assumes a: "host dtA a = (dtB, lb # lsB) # restA" "validate_linked_doc dtB" "link_name lb = b"
    and b: "host dtB b = (dtA, la # lsA) # restB" "validate_linked_doc dtA" "link_name la = a"
  shows "a \<notin> node_name ` set docs \<Longrightarrow> b \<notin> node_name ` set docs \<Longrightarrow>
           get_linked_documents fuel host dtA a docs = None \<and>
           get_linked_documents fuel host dtB b docs = None"
proof (induction fuel arbitrary: docs)
  case 0
  show ?case by simp
next
  case (Suc fuel)
  from Suc.IH [OF Suc.prems] a b Suc.prems show ?case
    by simp
qed

text \<open>
  Two documents linked to each other: task \<open>B\<close> and timesheet \<open>A\<close>.
\<close>

definition cycle_links :: link_host where
  "cycle_links doctype name =
     (if doctype = ''Task'' \<and> name = ''B'' then
        [(''Timesheet'', [\<lparr>link_name = ''A'', link_docstatus = 0\<rparr>])]
      else if doctype = ''Timesheet'' \<and> name = ''A'' then
        [(''Task'', [\<lparr>link_name = ''B'', link_docstatus = 0\<rparr>])]
      else [])"

lemma link_graph_example_links:
  "link_graph example_links {} = {((''Task'', ''T1''), (''Project'', ''P1''))}"
proof
  show "link_graph example_links {} \<subseteq> {((''Task'', ''T1''), (''Project'', ''P1''))}"
    by (auto simp: link_graph_def accepted_links_def example_links_def validate_linked_doc_def
        split: if_splits)
  have "accepted_links example_links (''Project'', ''P1'') = [(''Task'', ''T1'')]"
    by (simp add: accepted_links_def example_links_def validate_linked_doc_def)
  then have "((''Task'', ''T1''), (''Project'', ''P1'')) \<in> link_graph example_links {}"
    by (simp add: link_graph_def)
  then show "{((''Task'', ''T1''), (''Project'', ''P1''))} \<subseteq> link_graph example_links {}"
    by simp
qed

lemma link_graph_cycle_links:
  "link_graph cycle_links {''A''} = {((''Task'', ''B''), (''Timesheet'', ''A''))}"
  by (auto simp: link_graph_def accepted_links_def cycle_links_def validate_linked_doc_def
      split: if_splits)

subsection \<open>The traversal with a record of the calls in progress\<close>

text \<open>
  To say that the traversal never enters a document whose own call is still running,
  the traversal is run once more with the stack of the documents whose calls are in
  progress.  The loops and the function are those of the source; the one addition is
  that a call on a document of the stack stops the run with \<open>Reentered\<close>.  A run
  that needs more depth than it was given stops with \<open>OutOfFuel\<close>.
\<close>

datatype 'a outcome = Returned 'a | Reentered | OutOfFuel

type_synonym guarded_traversal =
  "string \<Rightarrow> string \<Rightarrow> node list \<Rightarrow> (node list \<times> nat) outcome"

fun links_loop_guarded ::
  "guarded_traversal \<Rightarrow> string \<Rightarrow> link list \<Rightarrow> node list \<Rightarrow> nat \<Rightarrow> (node list \<times> nat) outcome" where
  "links_loop_guarded rec link_doctype [] docs link_count = Returned (docs, link_count)"
| "links_loop_guarded rec link_doctype (link # link_names) docs link_count =
     (if \<not> validate_linked_doc link_doctype then
        links_loop_guarded rec link_doctype link_names docs link_count
      else if link_name link \<in> set (map node_name docs) then
        links_loop_guarded rec link_doctype link_names docs (link_count + 1)
      else
        (case rec link_doctype (link_name link) docs of
           Returned (child_docs, count) \<Rightarrow>
             links_loop_guarded rec link_doctype link_names
               ((if docs = [] then [] else child_docs) @
                [\<lparr>node_doctype = link_doctype, node_name = link_name link,
                  node_docstatus = link_docstatus link, node_link_count = count\<rparr>])
               (link_count + 1)
         | Reentered \<Rightarrow> Reentered
         | OutOfFuel \<Rightarrow> OutOfFuel))"

fun doctypes_loop_guarded ::
  "guarded_traversal \<Rightarrow> linked_docs \<Rightarrow> node list \<Rightarrow> nat \<Rightarrow> (node list \<times> nat) outcome" where
  "doctypes_loop_guarded rec [] docs link_count = Returned (docs, link_count)"
| "doctypes_loop_guarded rec ((link_doctype, link_names) # rest) docs link_count =
     (case links_loop_guarded rec link_doctype link_names docs link_count of
        Returned (docs', link_count') \<Rightarrow> doctypes_loop_guarded rec rest docs' link_count'
      | Reentered \<Rightarrow> Reentered
      | OutOfFuel \<Rightarrow> OutOfFuel)"

primrec get_linked_documents_guarded ::
  "nat \<Rightarrow> link_host \<Rightarrow> document list \<Rightarrow> guarded_traversal" where
  "get_linked_documents_guarded 0 host = (\<lambda>stack doctype name docs.
     if (doctype, name) \<in> set stack then Reentered else OutOfFuel)"
| "get_linked_documents_guarded (Suc fuel) host = (\<lambda>stack doctype name docs.
     if (doctype, name) \<in> set stack then Reentered
     else
       (case doctypes_loop_guarded
               (get_linked_documents_guarded fuel host ((doctype, name) # stack))
               (host doctype name) docs 0 of
          Returned (docs', link_count) \<Rightarrow> Returned (sort_key node_link_count docs', link_count)
        | Reentered \<Rightarrow> Reentered
        | OutOfFuel \<Rightarrow> OutOfFuel))"

text \<open>
  A list of documents that holds, with each of its documents, the documents of its
  allow-listed links; and the link graph from the documents of such a list.
\<close>

definition closed_under_links :: "link_host \<Rightarrow> document list \<Rightarrow> bool" where
  "closed_under_links host nodes =
     list_all (\<lambda>p. list_all (\<lambda>c. c \<in> set nodes) (accepted_links host p)) nodes"

definition link_graph_on ::
  "link_host \<Rightarrow> string set \<Rightarrow> document list \<Rightarrow> (document \<times> document) set" where
  "link_graph_on host seen nodes = {(c, p). p \<in> set nodes \<and> (c, p) \<in> link_graph host seen}"

lemma links_loop_guarded_plain:
  assumes "\<And>dt n d r. grec dt n d = Returned r \<Longrightarrow> rec dt n d = Some r"
  shows "links_loop_guarded grec dt ls docs c = Returned r \<Longrightarrow>
           links_loop rec dt ls docs c = Some r"
proof (induction ls arbitrary: docs c)
  case Nil
  then show ?case by simp
next
  case (Cons l ls)
  show ?case
  proof (cases "validate_linked_doc dt \<and> link_name l \<notin> set (map node_name docs)")
    case False
    with Cons show ?thesis by auto
  next
    case True
    with Cons.prems obtain cd n where
      1: "grec dt (link_name l) docs = Returned (cd, n)" and
      2: "links_loop_guarded grec dt ls
            ((if docs = [] then [] else cd) @
             [\<lparr>node_doctype = dt, node_name = link_name l,
               node_docstatus = link_docstatus l, node_link_count = n\<rparr>]) (c + 1) = Returned r"
      by (auto split: outcome.splits)
    from assms [OF 1] Cons.IH [OF 2] True show ?thesis by simp
  qed
qed

lemma doctypes_loop_guarded_plain:
  assumes "\<And>dt n d r. grec dt n d = Returned r \<Longrightarrow> rec dt n d = Some r"
  shows "doctypes_loop_guarded grec linked docs c = Returned r \<Longrightarrow>
           doctypes_loop rec linked docs c = Some r"
proof (induction linked arbitrary: docs c)
  case Nil
  then show ?case by simp
next
  case (Cons a linked)
  obtain dt ls where a: "a = (dt, ls)" by (cases a)
  from Cons.prems a obtain d1 c1 where
    1: "links_loop_guarded grec dt ls docs c = Returned (d1, c1)" and
    2: "doctypes_loop_guarded grec linked d1 c1 = Returned r"
    by (auto split: outcome.splits)
  from links_loop_guarded_plain [of grec rec, OF assms 1] Cons.IH [OF 2] a show ?case by simp
qed

lemma get_linked_documents_guarded_plain:
  "get_linked_documents_guarded fuel host stack dt nm docs = Returned r \<Longrightarrow>
     get_linked_documents fuel host dt nm docs = Some r"
proof (induction fuel arbitrary: stack dt nm docs r)
  case 0
  then show ?case by (simp split: if_splits)
next
  case (Suc fuel)
  from Suc.prems obtain d1 c1 where
    1: "doctypes_loop_guarded (get_linked_documents_guarded fuel host ((dt, nm) # stack))
          (host dt nm) docs 0 = Returned (d1, c1)" and
    r: "r = (sort_key node_link_count d1, c1)"
    by (auto split: if_splits outcome.splits)
  have "doctypes_loop (get_linked_documents fuel host) (host dt nm) docs 0 = Some (d1, c1)"
    by (rule doctypes_loop_guarded_plain [OF _ 1]) (rule Suc.IH)
  with r show ?case by simp
qed

lemma links_loop_guarded_fuel:
  assumes "validate_linked_doc dt \<Longrightarrow>
             \<forall>l\<in>set ls. \<forall>d. grec dt (link_name l) d \<noteq> OutOfFuel"
  shows "links_loop_guarded grec dt ls docs c \<noteq> OutOfFuel"
proof (cases "validate_linked_doc dt")
  case False
  have "links_loop_guarded grec dt ls docs c = Returned (docs, c)"
    using False by (induction ls) simp_all
  then show ?thesis by simp
next
  case True
  from assms [OF True] show ?thesis
  proof (induction ls arbitrary: docs c)
    case Nil
    show ?case by simp
  next
    case (Cons l ls)
    from Cons.prems have r': "\<forall>l\<in>set ls. \<forall>d. grec dt (link_name l) d \<noteq> OutOfFuel"
      by simp
    from Cons.prems have h: "grec dt (link_name l) docs \<noteq> OutOfFuel"
      by simp
    show ?case
    proof (cases "grec dt (link_name l) docs")
      case (Returned res)
      obtain cd n where "res = (cd, n)" by (cases res)
      with Returned True Cons.IH [OF r'] show ?thesis by simp
    next
      case Reentered
      with True Cons.IH [OF r'] show ?thesis by simp
    next
      case OutOfFuel
      with h show ?thesis by simp
    qed
  qed
qed

lemma doctypes_loop_guarded_fuel:
  assumes "\<forall>(dt, ls)\<in>set linked. validate_linked_doc dt \<longrightarrow>
             (\<forall>l\<in>set ls. \<forall>d. grec dt (link_name l) d \<noteq> OutOfFuel)"
  shows "doctypes_loop_guarded grec linked docs c \<noteq> OutOfFuel"
  using assms
proof (induction linked arbitrary: docs c)
  case Nil
  show ?case by simp
next
  case (Cons a linked)
  obtain dt ls where a: "a = (dt, ls)" by (cases a)
  from Cons.prems a have va: "validate_linked_doc dt \<Longrightarrow>
      \<forall>l\<in>set ls. \<forall>d. grec dt (link_name l) d \<noteq> OutOfFuel"
    by simp
  from Cons.prems have vr: "\<forall>(dt, ls)\<in>set linked. validate_linked_doc dt \<longrightarrow>
             (\<forall>l\<in>set ls. \<forall>d. grec dt (link_name l) d \<noteq> OutOfFuel)"
    by simp
  have 1: "links_loop_guarded grec dt ls docs c \<noteq> OutOfFuel"
    by (rule links_loop_guarded_fuel [where grec = grec and dt = dt and ls = ls, OF va])
  show ?case
  proof (cases "links_loop_guarded grec dt ls docs c")
    case (Returned res)
    obtain d1 c1 where "res = (d1, c1)" by (cases res)
    with Returned a Cons.IH [OF vr] show ?thesis by simp
  next
    case Reentered
    with a show ?thesis by simp
  next
    case OutOfFuel
    with 1 show ?thesis by simp
  qed
qed

lemma accepted_links_member:
  assumes "(ld, ls) \<in> set (host dt nm)" and "l \<in> set ls" and "validate_linked_doc ld"
  shows "(ld, link_name l) \<in> set (accepted_links host (dt, nm))"
  using assms by (force simp: accepted_links_def)

lemma closed_under_links_iff:
  "closed_under_links host nodes \<longleftrightarrow> (\<forall>p\<in>set nodes. set (accepted_links host p) \<subseteq> set nodes)"
  by (auto simp: closed_under_links_def list_all_iff)

lemma get_linked_documents_guarded_fuel:
  assumes closed: "closed_under_links host nodes"
  shows "(dt, nm) \<in> set nodes \<Longrightarrow> distinct stack \<Longrightarrow> set stack \<subseteq> set nodes \<Longrightarrow>
           card (set nodes) < fuel + length stack \<Longrightarrow>
           get_linked_documents_guarded fuel host stack dt nm docs \<noteq> OutOfFuel"
proof (induction fuel arbitrary: stack dt nm docs)
  case 0
  show ?case
  proof (cases "(dt, nm) \<in> set stack")
    case True
    then show ?thesis by simp
  next
    case False
    with 0 have "distinct ((dt, nm) # stack)" and "set ((dt, nm) # stack) \<subseteq> set nodes"
      by simp_all
    then have "length ((dt, nm) # stack) \<le> card (set nodes)"
      by (metis List.finite_set card_mono distinct_card)
    with 0 show ?thesis by simp
  qed
next
  case (Suc fuel)
  show ?case
  proof (cases "(dt, nm) \<in> set stack")
    case True
    then show ?thesis by simp
  next
    case False
    with Suc.prems have d: "distinct ((dt, nm) # stack)"
      and s: "set ((dt, nm) # stack) \<subseteq> set nodes"
      and c: "card (set nodes) < fuel + length ((dt, nm) # stack)"
      by simp_all
    have call: "get_linked_documents_guarded fuel host ((dt, nm) # stack) ld (link_name l) dd
          \<noteq> OutOfFuel"
      if m: "(ld, ls) \<in> set (host dt nm)" "l \<in> set ls" "validate_linked_doc ld"
      for ld ls l and dd :: "node list"
    proof -
      from accepted_links_member [where host = host and dt = dt and nm = nm, OF m] closed Suc.prems(1)
      have "(ld, link_name l) \<in> set nodes"
        by (auto simp: closed_under_links_iff)
      from Suc.IH [OF this d s c] show ?thesis .
    qed
    have "\<forall>(ld, ls)\<in>set (host dt nm). validate_linked_doc ld \<longrightarrow>
             (\<forall>l\<in>set ls. \<forall>dd.
                get_linked_documents_guarded fuel host ((dt, nm) # stack) ld (link_name l) dd
                  \<noteq> OutOfFuel)"
      using call by blast
    from doctypes_loop_guarded_fuel [OF this]
    have "doctypes_loop_guarded (get_linked_documents_guarded fuel host ((dt, nm) # stack))
            (host dt nm) docs 0 \<noteq> OutOfFuel" .
    with False show ?thesis
      by (simp split: outcome.splits)
  qed
qed

lemma get_linked_documents_no_reentry:
  assumes "(dt, nm) \<in> set nodes" and "closed_under_links host nodes"
    and "get_linked_documents_guarded (Suc (length nodes)) host [] dt nm docs \<noteq> Reentered"
  shows "\<exists>res. get_linked_documents_guarded (Suc (length nodes)) host [] dt nm docs = Returned res \<and>
               get_linked_documents (Suc (length nodes)) host dt nm docs = Some res"
proof -
  have "card (set nodes) < Suc (length nodes) + length ([] :: document list)"
    using card_length [of nodes] by simp
  from get_linked_documents_guarded_fuel [OF assms(2,1) _ _ this, of docs]
  have "get_linked_documents_guarded (Suc (length nodes)) host [] dt nm docs \<noteq> OutOfFuel"
    by simp
  with assms(3) obtain res where
    r: "get_linked_documents_guarded (Suc (length nodes)) host [] dt nm docs = Returned res"
    by (cases "get_linked_documents_guarded (Suc (length nodes)) host [] dt nm docs") simp_all
  from get_linked_documents_guarded_plain [OF r] r show ?thesis
    by blast
qed

lemma get_linked_documents_returns_closed:
  assumes closed: "closed_under_links host nodes"
    and wf: "wf (link_graph_on host seen nodes)"
  shows "p \<in> set nodes \<Longrightarrow> \<exists>fuel. returns_within host seen fuel p"
  using wf
proof (induction p rule: wf_induct_rule)
  case (less p)
  have "\<forall>c\<in>set (filter (\<lambda>c. snd c \<notin> seen) (accepted_links host p)).
          \<exists>fuel. returns_within host seen fuel c"
  proof
    fix c assume c: "c \<in> set (filter (\<lambda>c. snd c \<notin> seen) (accepted_links host p))"
    with less.prems have "(c, p) \<in> link_graph_on host seen nodes"
      by (simp add: link_graph_on_def link_graph_def)
    moreover from c closed less.prems have "c \<in> set nodes"
      by (auto simp: closed_under_links_iff)
    ultimately show "\<exists>fuel. returns_within host seen fuel c"
      by (rule less.IH)
  qed
  from uniform_fuel [of _ "returns_within host seen", OF this returns_within_mono]
  obtain F where "\<forall>c\<in>set (filter (\<lambda>c. snd c \<notin> seen) (accepted_links host p)).
                    returns_within host seen F c"
    by (rule exE)
  from returns_within_step [OF this] show ?case ..
qed

lemma finite_link_graph_on:
  assumes "closed_under_links host nodes"
  shows "finite (link_graph_on host seen nodes)"
proof (rule finite_subset)
  show "link_graph_on host seen nodes \<subseteq> set nodes \<times> set nodes"
    using assms by (auto simp: link_graph_on_def link_graph_def closed_under_links_iff)
  show "finite (set nodes \<times> set nodes)"
    by simp
qed

lemma get_linked_documents_guarded_on_stack:
  "(dt, nm) \<in> set stack \<Longrightarrow> get_linked_documents_guarded fuel host stack dt nm docs = Reentered"
  by (cases fuel) simp_all

lemma two_cycle_reenters:
  assumes a: "host dtA a = (dtB, lb # lsB) # restA" "validate_linked_doc dtB" "link_name lb = b"
    and b: "host dtB b = (dtA, la # lsA) # restB" "validate_linked_doc dtA" "link_name la = a"
    and n: "a \<notin> node_name ` set docs" "b \<notin> node_name ` set docs"
  shows "get_linked_documents_guarded (Suc (Suc fuel)) host [] dtA a docs = Reentered"
proof -
  have 1: "get_linked_documents_guarded fuel host [(dtB, b), (dtA, a)] dtA a docs = Reentered"
    by (rule get_linked_documents_guarded_on_stack) simp
  have 2: "get_linked_documents_guarded (Suc fuel) host [(dtA, a)] dtB b docs = Reentered"
    using a b n 1 by simp
  show ?thesis
    using a n 2 by (simp del: get_linked_documents_guarded.simps
        add: get_linked_documents_guarded.simps(2) [of "Suc fuel"])
qed

text \<open>
  Project \<open>P\<close> is linked to task \<open>X\<close> and to project \<open>Y\<close>; project \<open>Y\<close>
  and timesheet \<open>X\<close> are linked to each other.  The cycle is cut: when \<open>Y\<close> is
  visited, the name \<open>X\<close> is already in \<open>docs\<close>.
\<close>

definition cut_links :: link_host where
  "cut_links doctype name =
     (if doctype = ''Project'' \<and> name = ''P'' then
        [(''Task'', [\<lparr>link_name = ''X'', link_docstatus = 0\<rparr>]),
         (''Project'', [\<lparr>link_name = ''Y'', link_docstatus = 0\<rparr>])]
      else if doctype = ''Project'' \<and> name = ''Y'' then
        [(''Timesheet'', [\<lparr>link_name = ''X'', link_docstatus = 0\<rparr>])]
      else if doctype = ''Timesheet'' \<and> name = ''X'' then
        [(''Project'', [\<lparr>link_name = ''Y'', link_docstatus = 0\<rparr>])]
      else [])"

text \<open>
  Claim C3.  \<open>get_linked_documents\<close> returns (with enough depth of recursion) in
  each of these cases: the allow-listed links to documents whose name is not yet in
  \<open>docs\<close> admit no infinite chain; they are finitely many and have no cycle; the
  document belongs to a list of documents closed under allow-listed links, among which
  these links have no cycle (every finite acyclic graph, whatever cycles lie elsewhere
  or pass through a name already in \<open>docs\<close>); the document belongs to such a list
  and the traversal, run with the stack of the calls in progress, never enters a
  document whose own call is still running, and then the depth one more than the length
  of the list is enough and the result is that of the run with the stack.  It does not
  return, whatever the depth, on two documents \<open>A\<close> and \<open>B\<close> whose names are
  not in \<open>docs\<close> and whose first linked records are each other: the check on the
  names in \<open>docs\<close> does not see \<open>A\<close>, whose call is still running, and the run
  with the stack reports the re-entry.
\<close>

theorem get_linked_documents_termination:
  "(wf (link_graph host (node_name ` set docs)) \<longrightarrow>
      (\<exists>fuel res. get_linked_documents fuel host doctype name docs = Some res)) \<and>
   (finite (link_graph host (node_name ` set docs)) \<and>
    acyclic (link_graph host (node_name ` set docs)) \<longrightarrow>
      (\<exists>fuel res. get_linked_documents fuel host doctype name docs = Some res)) \<and>
   ((doctype, name) \<in> set nodes \<and> closed_under_links host nodes \<and>
    acyclic (link_graph_on host (node_name ` set docs) nodes) \<longrightarrow>
      (\<exists>fuel res. get_linked_documents fuel host doctype name docs = Some res)) \<and>
   ((doctype, name) \<in> set nodes \<and> closed_under_links host nodes \<and>
    get_linked_documents_guarded (Suc (length nodes)) host [] doctype name docs \<noteq> Reentered \<longrightarrow>
      (\<exists>res. get_linked_documents_guarded (Suc (length nodes)) host [] doctype name docs =
                Returned res \<and>
             get_linked_documents (Suc (length nodes)) host doctype name docs = Some res)) \<and>
   (host dtA a = (dtB, lb # lsB) # restA \<and> validate_linked_doc dtB \<and> link_name lb = b \<and>
    host dtB b = (dtA, la # lsA) # restB \<and> validate_linked_doc dtA \<and> link_name la = a \<and>
    a \<notin> node_name ` set docs \<and> b \<notin> node_name ` set docs \<longrightarrow>
      (\<forall>fuel. get_linked_documents fuel host dtA a docs = None) \<and>
      (\<forall>fuel. get_linked_documents_guarded (Suc (Suc fuel)) host [] dtA a docs = Reentered))"
proof (intro conjI impI allI)
  assume "wf (link_graph host (node_name ` set docs))"
  from get_linked_documents_returns_wf [OF this, of "(doctype, name)"]
  obtain fuel where "returns_within host (node_name ` set docs) fuel (doctype, name)"
    by (rule exE)
  then have "get_linked_documents fuel host doctype name docs \<noteq> None"
    by (simp add: returns_within_def)
  then show "\<exists>fuel res. get_linked_documents fuel host doctype name docs = Some res"
    by blast
next
  assume "finite (link_graph host (node_name ` set docs)) \<and>
    acyclic (link_graph host (node_name ` set docs))"
  then have "wf (link_graph host (node_name ` set docs))"
    by (simp add: finite_acyclic_wf)
  from get_linked_documents_returns_wf [OF this, of "(doctype, name)"]
  obtain fuel where "returns_within host (node_name ` set docs) fuel (doctype, name)"
    by (rule exE)
  then have "get_linked_documents fuel host doctype name docs \<noteq> None"
    by (simp add: returns_within_def)
  then show "\<exists>fuel res. get_linked_documents fuel host doctype name docs = Some res"
    by blast
next
  assume h: "(doctype, name) \<in> set nodes \<and> closed_under_links host nodes \<and>
    acyclic (link_graph_on host (node_name ` set docs) nodes)"
  then have "wf (link_graph_on host (node_name ` set docs) nodes)"
    by (simp add: finite_acyclic_wf finite_link_graph_on)
  with h have "\<exists>fuel. returns_within host (node_name ` set docs) fuel (doctype, name)"
    by (intro get_linked_documents_returns_closed [where nodes = nodes]) simp_all
  then obtain fuel where "returns_within host (node_name ` set docs) fuel (doctype, name)"
    by (rule exE)
  then have "get_linked_documents fuel host doctype name docs \<noteq> None"
    by (simp add: returns_within_def)
  then show "\<exists>fuel res. get_linked_documents fuel host doctype name docs = Some res"
    by blast
next
  assume "(doctype, name) \<in> set nodes \<and> closed_under_links host nodes \<and>
    get_linked_documents_guarded (Suc (length nodes)) host [] doctype name docs \<noteq> Reentered"
  then show "\<exists>res. get_linked_documents_guarded (Suc (length nodes)) host [] doctype name docs =
                Returned res \<and>
             get_linked_documents (Suc (length nodes)) host doctype name docs = Some res"
    by (intro get_linked_documents_no_reentry) simp_all
next
  fix fuel
  assume "host dtA a = (dtB, lb # lsB) # restA \<and> validate_linked_doc dtB \<and> link_name lb = b \<and>
    host dtB b = (dtA, la # lsA) # restB \<and> validate_linked_doc dtA \<and> link_name la = a \<and>
    a \<notin> node_name ` set docs \<and> b \<notin> node_name ` set docs"
  then show "get_linked_documents fuel host dtA a docs = None"
    using two_cycle_diverges [of host dtA a dtB lb lsB restA b la lsA restB docs fuel]
    by blast
next
  fix fuel
  assume "host dtA a = (dtB, lb # lsB) # restA \<and> validate_linked_doc dtB \<and> link_name lb = b \<and>
    host dtB b = (dtA, la # lsA) # restB \<and> validate_linked_doc dtA \<and> link_name la = a \<and>
    a \<notin> node_name ` set docs \<and> b \<notin> node_name ` set docs"
  then show "get_linked_documents_guarded (Suc (Suc fuel)) host [] dtA a docs = Reentered"
    using two_cycle_reenters [of host dtA a dtB lb lsB restA b la lsA restB docs fuel]
    by blast
qed

theorem get_linked_documents_termination_witness:
  "(\<exists>fuel res. get_linked_documents fuel cycle_links ''Task'' ''B''
      [\<lparr>node_doctype = ''Task'', node_name = ''A'', node_docstatus = 0, node_link_count = 0\<rparr>]
      = Some res) \<and>
   (\<exists>fuel res. get_linked_documents fuel example_links ''Project'' ''P1'' [] = Some res) \<and>
   (\<exists>fuel res. get_linked_documents fuel cycle_links ''Project'' ''Q'' [] = Some res) \<and>
   get_linked_documents 5 cut_links ''Project'' ''P'' [] =
     Some ([\<lparr>node_doctype = ''Task'', node_name = ''X'', node_docstatus = 0, node_link_count = 0\<rparr>,
            \<lparr>node_doctype = ''Project'', node_name = ''Y'', node_docstatus = 0, node_link_count = 1\<rparr>],
           2) \<and>
   (\<forall>fuel. get_linked_documents fuel cycle_links ''Task'' ''B'' [] = None) \<and>
   (\<forall>fuel. get_linked_documents_guarded (Suc (Suc fuel)) cycle_links [] ''Task'' ''B'' [] = Reentered)"
proof (intro conjI)
  have "wf (link_graph cycle_links (node_name ` set
      [\<lparr>node_doctype = ''Task'', node_name = ''A'', node_docstatus = 0, node_link_count = 0\<rparr>]))"
    by (simp add: link_graph_cycle_links)
  with get_linked_documents_termination [where host = cycle_links and doctype = "''Task''"
      and name = "''B''" and docs =
      "[\<lparr>node_doctype = ''Task'', node_name = ''A'', node_docstatus = 0, node_link_count = 0\<rparr>]",
      THEN conjunct1]
  show "\<exists>fuel res. get_linked_documents fuel cycle_links ''Task'' ''B''
      [\<lparr>node_doctype = ''Task'', node_name = ''A'', node_docstatus = 0, node_link_count = 0\<rparr>]
      = Some res"
    by (simp del: get_linked_documents.simps)
next
  have "wf (link_graph example_links {})"
    by (simp add: link_graph_example_links)
  then have "acyclic (link_graph example_links {})"
    by (rule wf_acyclic)
  then have "finite (link_graph example_links (node_name ` set [])) \<and>
        acyclic (link_graph example_links (node_name ` set []))"
    by (simp add: link_graph_example_links)
  with get_linked_documents_termination [where host = example_links and doctype = "''Project''"
      and name = "''P1''" and docs = "[]", THEN conjunct2, THEN conjunct1]
  show "\<exists>fuel res. get_linked_documents fuel example_links ''Project'' ''P1'' [] = Some res"
    by (simp del: get_linked_documents.simps)
next
  have e: "accepted_links cycle_links (''Project'', ''Q'') = []"
    by (simp add: accepted_links_def cycle_links_def)
  then have "link_graph_on cycle_links (node_name ` set []) [(''Project'', ''Q'')] = {}"
    by (auto simp: link_graph_on_def link_graph_def)
  moreover have "acyclic ({} :: (document \<times> document) set)"
    by (rule wf_acyclic) simp
  ultimately have "(''Project'', ''Q'') \<in> set [(''Project'', ''Q'')] \<and>
      closed_under_links cycle_links [(''Project'', ''Q'')] \<and>
      acyclic (link_graph_on cycle_links (node_name ` set []) [(''Project'', ''Q'')])"
    using e by (simp add: closed_under_links_def)
  with get_linked_documents_termination [where host = cycle_links and doctype = "''Project''"
      and name = "''Q''" and docs = "[]" and nodes = "[(''Project'', ''Q'')]",
      THEN conjunct2, THEN conjunct2, THEN conjunct1]
  show "\<exists>fuel res. get_linked_documents fuel cycle_links ''Project'' ''Q'' [] = Some res"
    by (simp del: get_linked_documents.simps)
next
  let ?nodes = "[(''Project'', ''P''), (''Task'', ''X''), (''Project'', ''Y''), (''Timesheet'', ''X'')]"
  have c: "closed_under_links cut_links ?nodes"
    by (simp add: closed_under_links_def accepted_links_def cut_links_def validate_linked_doc_def)
  have g: "get_linked_documents_guarded (Suc (length ?nodes)) cut_links [] ''Project'' ''P'' [] =
     Returned
       ([\<lparr>node_doctype = ''Task'', node_name = ''X'', node_docstatus = 0, node_link_count = 0\<rparr>,
         \<lparr>node_doctype = ''Project'', node_name = ''Y'', node_docstatus = 0, node_link_count = 1\<rparr>],
        2)"
    by (simp add: cut_links_def validate_linked_doc_def)
  from c g get_linked_documents_termination [where host = cut_links and doctype = "''Project''"
      and name = "''P''" and docs = "[]" and nodes = ?nodes,
      THEN conjunct2, THEN conjunct2, THEN conjunct2, THEN conjunct1]
  have "get_linked_documents (Suc (length ?nodes)) cut_links ''Project'' ''P'' [] =
     Some ([\<lparr>node_doctype = ''Task'', node_name = ''X'', node_docstatus = 0, node_link_count = 0\<rparr>,
            \<lparr>node_doctype = ''Project'', node_name = ''Y'', node_docstatus = 0, node_link_count = 1\<rparr>],
           2)"
    by (simp del: get_linked_documents.simps get_linked_documents_guarded.simps)
  moreover have "Suc (length ?nodes) = 5"
    by simp
  ultimately show "get_linked_documents 5 cut_links ''Project'' ''P'' [] =
     Some ([\<lparr>node_doctype = ''Task'', node_name = ''X'', node_docstatus = 0, node_link_count = 0\<rparr>,
            \<lparr>node_doctype = ''Project'', node_name = ''Y'', node_docstatus = 0, node_link_count = 1\<rparr>],
           2)"
    by (simp only:)
next
  have h: "cycle_links ''Task'' ''B'' =
          (''Timesheet'', \<lparr>link_name = ''A'', link_docstatus = 0\<rparr> # []) # [] \<and>
        validate_linked_doc ''Timesheet'' \<and>
        link_name \<lparr>link_name = ''A'', link_docstatus = 0\<rparr> = ''A'' \<and>
        cycle_links ''Timesheet'' ''A'' =
          (''Task'', \<lparr>link_name = ''B'', link_docstatus = 0\<rparr> # []) # [] \<and>
        validate_linked_doc ''Task'' \<and>
        link_name \<lparr>link_name = ''B'', link_docstatus = 0\<rparr> = ''B'' \<and>
        ''B'' \<notin> node_name ` set [] \<and> ''A'' \<notin> node_name ` set []"
    by (simp add: cycle_links_def validate_linked_doc_def)
  note t = get_linked_documents_termination [where host = cycle_links and dtA = "''Task''"
      and a = "''B''" and dtB = "''Timesheet''" and b = "''A''" and docs = "[]"
      and lb = "\<lparr>link_name = ''A'', link_docstatus = 0\<rparr>" and lsB = "[]" and restA = "[]"
      and la = "\<lparr>link_name = ''B'', link_docstatus = 0\<rparr>" and lsA = "[]" and restB = "[]",
      THEN conjunct2, THEN conjunct2, THEN conjunct2, THEN conjunct2, rule_format, OF h]
  from t show "\<forall>fuel. get_linked_documents fuel cycle_links ''Task'' ''B'' [] = None"
    by (rule conjunct1)
  from t show "\<forall>fuel. get_linked_documents_guarded (Suc (Suc fuel)) cycle_links [] ''Task'' ''B'' []
      = Reentered"
    by (rule conjunct2)
qed

end
